theory Spec2Isabelle
  imports Complex_Main "HOL-Library.AList"
begin

section \<open>Python values, exceptions and the environment\<close>

text \<open>
  The translation pipeline of \<^verbatim>\<open>translate_mesh_deep.py\<close> works on values decoded by
  \<^verbatim>\<open>json.loads\<close>. A decoded value is \<^verbatim>\<open>None\<close>, a bool, an int, a float, a str, a
  list or a dict; a dict keeps its items in insertion order, so it is an association
  list with distinct keys. A finite float is embedded as the real number it denotes
  (\<^verbatim>\<open>NaN\<close> and the infinities are not represented). A Python str is a list of
  characters; a \<^typ>\<open>char\<close> stands for a code point below 256.
\<close>

datatype json =
    JNull
  | JBool bool
  | JInt int
  | JFloat real
  | JStr string
  | JArr "json list"
  | JObj "(string \<times> json) list"

text \<open>Python's truth value of a decoded value, as \<^verbatim>\<open>if x:\<close> tests it.\<close>

fun truthy :: "json \<Rightarrow> bool" where
  "truthy JNull = False"
| "truthy (JBool b) = b"
| "truthy (JInt i) = (i \<noteq> 0)"
| "truthy (JFloat r) = (r \<noteq> 0)"
| "truthy (JStr s) = (s \<noteq> [])"
| "truthy (JArr xs) = (xs \<noteq> [])"
| "truthy (JObj kvs) = (kvs \<noteq> [])"

text \<open>
  The exceptions of the model. \<open>Raised e\<close> is an exception (a subclass of
  \<^verbatim>\<open>Exception\<close>) raised by an external collaborator, with its message \<open>e\<close>: the
  translation provider or the file system. The others are raised by Python itself:
  \<^verbatim>\<open>AttributeError\<close> by \<^verbatim>\<open>x.strip()\<close> or \<^verbatim>\<open>x.get(k)\<close> on a value without that method,
  \<^verbatim>\<open>TypeError\<close> by hashing a list or a dict, \<^verbatim>\<open>ValueError\<close> by \<^verbatim>\<open>time.sleep\<close> of a
  negative duration, \<^verbatim>\<open>OverflowError\<close> by \<^verbatim>\<open>time.sleep\<close> of a duration that is too large
  and by the conversion of an int beyond the range of a float.
\<close>

datatype exn = AttributeError | TypeError | ValueError | OverflowError | Raised string

text \<open>
  What lies outside the repository is a parameter of the model:
  \<^item> \<open>loads\<close> is \<^verbatim>\<open>json.loads\<close> (\<open>None\<close> when it raises), \<open>dumps\<close> is
    \<^verbatim>\<open>json.dumps(obj, ensure_ascii=False)\<close>, \<open>dump_cache\<close> is the text that
    \<^verbatim>\<open>json.dump(cache, f, ensure_ascii=False, indent=2)\<close> writes;
  \<^item> \<open>construct n\<close> is the outcome of the \<open>n\<close>-th construction
    \<^verbatim>\<open>GoogleTranslator(source='en', target='vi')\<close> of the run (\<open>Some e\<close> when it raises),
    and \<open>translate n text\<close> is the provider's reply to the \<open>n\<close>-th call
    \<^verbatim>\<open>translator.translate(text)\<close> of the run, both counted from 0;
  \<^item> \<open>fault n\<close> says where the file system fails during the \<open>n\<close>-th call of
    \<^verbatim>\<open>save_cache\<close>;
  \<^item> \<open>max_sleep\<close> is the longest duration, in seconds, that \<^verbatim>\<open>time.sleep\<close> accepts
    (in CPython the largest number of nanoseconds of a signed 64-bit integer, about
    9.2e9 seconds).
\<close>

datatype reply = Raises string | Returns json

datatype fault = NoFault | OpenFails string | DumpFails nat string | ReplaceFails string

record env =
  loads :: "string \<Rightarrow> json option"
  dumps :: "json \<Rightarrow> string"
  dump_cache :: "(string \<times> json) list \<Rightarrow> string"
  construct :: "nat \<Rightarrow> string option"
  translate :: "nat \<Rightarrow> string \<Rightarrow> reply"
  fault :: "nat \<Rightarrow> fault"
  max_sleep :: real

text \<open>
  The effects of a run are recorded in order: constructions of the client, calls of the
  provider with their text, sleeps with their duration, and printed messages.
\<close>

datatype msg =
    Retry int int real string
  | Failed int string
  | ParseError
  | Progress int int
  | CacheWarning exn

datatype event = Construct | Invoke string | Sleep real | Print msg | Flush

text \<open>
  The state threaded through the run: the translation cache (a dict from source text to
  cached value, in insertion order), the trace of effects, the text written to the output file by this run
  (one entry per \<^verbatim>\<open>f_out.write\<close>), the counters \<^verbatim>\<open>written\<close> and \<^verbatim>\<open>total_read\<close> of
  \<^verbatim>\<open>process\<close>, and the files that \<^verbatim>\<open>save_cache\<close> touches, with every file-system state
  it has gone through (\<open>history\<close>) and the number of calls of \<^verbatim>\<open>save_cache\<close> so far.
\<close>

record state =
  cache :: "(string \<times> json) list"
  trace :: "event list"
  out :: "string list"
  written :: int
  total_read :: int
  files :: "string \<rightharpoonup> string"
  history :: "(string \<rightharpoonup> string) list"
  saves :: nat

definition emit :: "event \<Rightarrow> state \<Rightarrow> state" where
  "emit e s = s\<lparr>trace := trace s @ [e]\<rparr>"

primrec invoke_text :: "event \<Rightarrow> string list" where
  "invoke_text Construct = []"
| "invoke_text (Invoke t) = [t]"
| "invoke_text (Sleep d) = []"
| "invoke_text (Print m) = []"
| "invoke_text Flush = []"

primrec sleep_time :: "event \<Rightarrow> real list" where
  "sleep_time Construct = []"
| "sleep_time (Invoke t) = []"
| "sleep_time (Sleep d) = [d]"
| "sleep_time (Print m) = []"
| "sleep_time Flush = []"

definition invoked :: "state \<Rightarrow> string list" where
  "invoked s = concat (map invoke_text (trace s))"

definition sleeps :: "state \<Rightarrow> real list" where
  "sleeps s = concat (map sleep_time (trace s))"

definition constructions :: "state \<Rightarrow> nat" where
  "constructions s = length (filter (\<lambda>e. e = Construct) (trace s))"

text \<open>
  \<^verbatim>\<open>time.sleep(d)\<close> raises \<^verbatim>\<open>ValueError\<close> for a negative duration and \<^verbatim>\<open>OverflowError\<close>
  for a duration beyond the longest one it accepts, and blocks for \<open>d\<close> seconds
  otherwise.
\<close>

definition py_sleep :: "env \<Rightarrow> real \<Rightarrow> state \<Rightarrow> (exn + unit) \<times> state" where
  "py_sleep E d s =
     (if d < 0 then (Inl ValueError, s)
      else if max_sleep E < d then (Inl OverflowError, s)
      else (Inr (), emit (Sleep d) s))"

text \<open>Sequencing of two steps: an exception of the first ends the sequence.\<close>

definition and_then ::
  "(exn + 'a) \<times> state \<Rightarrow> ('a \<Rightarrow> state \<Rightarrow> (exn + 'b) \<times> state) \<Rightarrow> (exn + 'b) \<times> state" where
  "and_then r f = (case r of (Inl x, s) \<Rightarrow> (Inl x, s) | (Inr v, s) \<Rightarrow> f v s)"

section \<open>The translation client: \<^verbatim>\<open>translate_text\<close>\<close>

text \<open>
  \<^verbatim>\<open>str.isspace\<close> on the code points below 256, and \<^verbatim>\<open>str.strip()\<close>, which removes
  leading and trailing whitespace.
\<close>

definition isspace :: "char \<Rightarrow> bool" where
  "isspace c \<longleftrightarrow> c \<in> set [CHR 0x09, CHR 0x0A, CHR 0x0B, CHR 0x0C, CHR 0x0D,
     CHR 0x1C, CHR 0x1D, CHR 0x1E, CHR 0x1F, CHR 0x20, CHR 0x85, CHR 0xA0]"

definition strip :: "string \<Rightarrow> string" where
  "strip s = rev (dropWhile isspace (rev (dropWhile isspace s)))"

text \<open>
  The loop \<^verbatim>\<open>for attempt in range(retries)\<close> of \<^verbatim>\<open>translate_text\<close> (lines 54 to 69),
  over the attempts that remain. A truthy reply is cached and returned. A falsy reply
  goes to the next attempt at once. An exception of the provider is followed by a
  message and a sleep of \<^verbatim>\<open>base_delay * 2 ** attempt\<close> seconds, except at the last attempt,
  which prints a message and returns \<^verbatim>\<open>None\<close>. The product converts the int
  \<^verbatim>\<open>2 ** attempt\<close> to a float, which raises \<^verbatim>\<open>OverflowError\<close> from attempt 1024 on; the
  message and the sleep are inside the handler, so their exceptions leave
  \<^verbatim>\<open>translate_text\<close>. When the attempts are used up the result
  is \<^verbatim>\<open>None\<close>. The assignment \<^verbatim>\<open>cache[text] = translated\<close> mutates the caller's dict: the
  cache of the state.
\<close>

fun retry_loop ::
  "env \<Rightarrow> string \<Rightarrow> int \<Rightarrow> real \<Rightarrow> int list \<Rightarrow> state \<Rightarrow> (exn + json) \<times> state" where
  "retry_loop E text retries base_delay [] s = (Inr JNull, s)"
| "retry_loop E text retries base_delay (attempt # rest) s =
     (case translate E (length (invoked s)) text of
        Returns translated \<Rightarrow>
          (if truthy translated
           then (Inr translated, (emit (Invoke text) s)\<lparr>cache := AList.update text translated (cache s)\<rparr>)
           else retry_loop E text retries base_delay rest (emit (Invoke text) s))
      | Raises e \<Rightarrow>
          (if attempt < retries - 1
           then if 1024 \<le> attempt then (Inl OverflowError, emit (Invoke text) s)
                else and_then
                  (py_sleep E (base_delay * 2 ^ nat attempt)
                    (emit (Print (Retry (attempt + 1) retries (base_delay * 2 ^ nat attempt) (take 40 e)))
                      (emit (Invoke text) s)))
                  (\<lambda>_. retry_loop E text retries base_delay rest)
           else (Inr JNull, emit (Print (Failed retries (take 40 text))) (emit (Invoke text) s))))"

text \<open>
  \<^verbatim>\<open>translate_text(text, cache, retries, base_delay)\<close>: blank text gives \<^verbatim>\<open>None\<close> (line 46),
  a cached text gives the cached value (line 49), otherwise the client is constructed
  (line 52, outside every \<^verbatim>\<open>try\<close>) and the retry loop runs over \<^verbatim>\<open>range(retries)\<close>.
\<close>

definition translate_text ::
  "env \<Rightarrow> string \<Rightarrow> int \<Rightarrow> real \<Rightarrow> state \<Rightarrow> (exn + json) \<times> state" where
  "translate_text E text retries base_delay s =
     (if text = [] \<or> strip text = [] then (Inr JNull, s)
      else case map_of (cache s) text of
        Some v \<Rightarrow> (Inr v, s)
      | None \<Rightarrow>
          (case construct E (constructions s) of
             Some e \<Rightarrow> (Inl (Raised e), emit Construct s)
           | None \<Rightarrow> retry_loop E text retries base_delay [0..retries - 1] (emit Construct s)))"


text \<open>
  The spec's notion of a text with nothing to translate: empty or whitespace only.
\<close>

definition blank :: "string \<Rightarrow> bool" where
  "blank text \<longleftrightarrow> (\<forall>c\<in>set text. isspace c)"

section \<open>The cache store: \<^verbatim>\<open>save_cache\<close>\<close>

text \<open>
  The file system is a map from paths to contents. \<open>put_file\<close> is a completed write
  that leaves \<open>text\<close> as the content of \<open>path\<close>, \<open>move_file\<close> is the atomic rename of
  \<^verbatim>\<open>os.replace\<close>; each new file-system state is appended to the history, so that the
  history holds every state an observer can see.
\<close>

definition put_file :: "string \<Rightarrow> string \<Rightarrow> state \<Rightarrow> state" where
  "put_file path text s =
     s\<lparr>files := (files s)(path \<mapsto> text), history := history s @ [(files s)(path \<mapsto> text)]\<rparr>"

definition move_file :: "string \<Rightarrow> string \<Rightarrow> string \<Rightarrow> state \<Rightarrow> state" where
  "move_file src dst text s =
     s\<lparr>files := ((files s)(src := None))(dst \<mapsto> text),
       history := history s @ [((files s)(src := None))(dst \<mapsto> text)]\<rparr>"

text \<open>
  The three file operations of \<^verbatim>\<open>save_cache\<close>, each failing where the fault says:
  \<^verbatim>\<open>open(tmp, 'w')\<close> creates or truncates the file; \<^verbatim>\<open>json.dump\<close> (with the close of the
  \<^verbatim>\<open>with\<close> block) writes the text, or only its first \<open>n\<close> characters before it raises;
  \<^verbatim>\<open>os.replace(tmp, path)\<close> renames in one step.
\<close>

definition open_w :: "fault \<Rightarrow> string \<Rightarrow> state \<Rightarrow> (exn + unit) \<times> state" where
  "open_w flt path s =
     (case flt of OpenFails e \<Rightarrow> (Inl (Raised e), s) | _ \<Rightarrow> (Inr (), put_file path [] s))"

definition json_dump :: "fault \<Rightarrow> string \<Rightarrow> string \<Rightarrow> state \<Rightarrow> (exn + unit) \<times> state" where
  "json_dump flt text path s =
     (case flt of
        DumpFails n e \<Rightarrow> (Inl (Raised e), put_file path (take n text) s)
      | _ \<Rightarrow> (Inr (), put_file path text s))"

definition os_replace :: "fault \<Rightarrow> string \<Rightarrow> string \<Rightarrow> state \<Rightarrow> (exn + unit) \<times> state" where
  "os_replace flt src dst s =
     (case flt of
        ReplaceFails e \<Rightarrow> (Inl (Raised e), s)
      | _ \<Rightarrow>
          (case files s src of
             None \<Rightarrow> (Inl (Raised ''FileNotFoundError''), s)
           | Some text \<Rightarrow> (Inr (), move_file src dst text s)))"

text \<open>
  \<^verbatim>\<open>save_cache(cache, path)\<close> (lines 34 to 41): the body of the \<^verbatim>\<open>try\<close>, and the handler
  \<^verbatim>\<open>except Exception\<close> that prints a warning.
\<close>

definition save_cache :: "env \<Rightarrow> string \<Rightarrow> state \<Rightarrow> (exn + unit) \<times> state" where
  "save_cache E path s =
     (let flt = fault E (saves s);
          tmp = path @ ''.tmp'';
          s0 = s\<lparr>saves := saves s + 1\<rparr>
      in case and_then (open_w flt tmp s0)
                (\<lambda>_ s1. and_then (json_dump flt (dump_cache E (cache s)) tmp s1)
                   (\<lambda>_ s2. os_replace flt tmp path s2)) of
           (Inl x, s') \<Rightarrow> (Inr (), emit (Print (CacheWarning x)) s')
         | (Inr u, s') \<Rightarrow> (Inr (), s'))"

section \<open>The resume tracker\<close>

text \<open>
  Membership in a Python set goes by hash and equality: \<^verbatim>\<open>True == 1 == 1.0\<close>, a str
  equals only an equal str, \<^verbatim>\<open>None\<close> only itself; a list or a dict cannot be hashed
  (\<^verbatim>\<open>TypeError\<close>). \<open>py_key\<close> gives the value up to that equality, or \<open>None\<close> when it is
  unhashable.
\<close>

datatype key = KNone | KNum real | KStr string

fun py_key :: "json \<Rightarrow> key option" where
  "py_key JNull = Some KNone"
| "py_key (JBool b) = Some (KNum (if b then 1 else 0))"
| "py_key (JInt i) = Some (KNum (of_int i))"
| "py_key (JFloat r) = Some (KNum r)"
| "py_key (JStr s) = Some (KStr s)"
| "py_key (JArr xs) = None"
| "py_key (JObj kvs) = None"

text \<open>\<^verbatim>\<open>obj.get(k)\<close> on a dict: the value, or \<^verbatim>\<open>None\<close> when the key is missing.\<close>

definition dict_get :: "(string \<times> json) list \<Rightarrow> string \<Rightarrow> json" where
  "dict_get kvs k = (case map_of kvs k of None \<Rightarrow> JNull | Some v \<Rightarrow> v)"

text \<open>
  The scan of the existing output file (lines 88 to 94). A line adds an identifier only
  when it decodes to a dict with the key \<^verbatim>\<open>mesh_id\<close> and a hashable value; every other
  line is skipped, by the test \<^verbatim>\<open>'mesh_id' in obj\<close> or by the exception that the handler
  of line 93 swallows (an undecodable line, a decoded value that is not a dict, an
  unhashable identifier).
\<close>

definition line_id :: "env \<Rightarrow> string \<Rightarrow> key option" where
  "line_id E line =
     (case loads E line of
        Some (JObj kvs) \<Rightarrow> (case map_of kvs ''mesh_id'' of Some v \<Rightarrow> py_key v | None \<Rightarrow> None)
      | _ \<Rightarrow> None)"

definition collect_ids :: "env \<Rightarrow> string list \<Rightarrow> key set" where
  "collect_ids E lines =
     fold (\<lambda>line ids. case line_id E line of Some k \<Rightarrow> insert k ids | None \<Rightarrow> ids) lines {}"

text \<open>
  Lines 83 to 97, the value of \<^verbatim>\<open>existing_ids\<close>: the set stays empty unless resume mode is on and the output file
  exists.
\<close>

definition resume_set :: "env \<Rightarrow> bool \<Rightarrow> string list option \<Rightarrow> key set" where
  "resume_set E resume existing =
     (if resume then (case existing of Some lines \<Rightarrow> collect_ids E lines | None \<Rightarrow> {})
      else {})"

text \<open>
  The test of line 137, \<^verbatim>\<open>resume and mesh_id and mesh_id in existing_ids\<close>, evaluated
  from left to right.
\<close>

definition should_skip :: "bool \<Rightarrow> key set \<Rightarrow> json \<Rightarrow> exn + bool" where
  "should_skip resume existing_ids mesh_id =
     (if resume \<and> truthy mesh_id
      then (case py_key mesh_id of None \<Rightarrow> Inl TypeError | Some k \<Rightarrow> Inr (k \<in> existing_ids))
      else Inr False)"

section \<open>The record loop of \<^verbatim>\<open>process\<close>\<close>

text \<open>
  Lines 142 to 146 and 152 to 156: the value of the source field, when truthy, is handed
  to \<^verbatim>\<open>translate_text\<close> with \<^verbatim>\<open>retries=5\<close> and the default \<^verbatim>\<open>base_delay=1.0\<close>; there
  \<^verbatim>\<open>text.strip()\<close> raises \<^verbatim>\<open>AttributeError\<close> when the value is not a str. A truthy result
  is stored under the target key.
\<close>

definition translate_field ::
  "env \<Rightarrow> string \<Rightarrow> string \<Rightarrow> (string \<times> json) list \<Rightarrow> state
     \<Rightarrow> (exn + (string \<times> json) list) \<times> state" where
  "translate_field E src dst kvs s =
     (let v = dict_get kvs src in
      if truthy v then
        (case v of
           JStr text \<Rightarrow>
             and_then (translate_text E text 5 1 s)
               (\<lambda>r s'. (Inr (if truthy r then AList.update dst r kvs else kvs), s'))
         | _ \<Rightarrow> (Inl AttributeError, s))
      else (Inr kvs, s))"

text \<open>
  Lines 162 to 169: the record is written as one line, and after every 50th written
  record the cache is saved, the output flushed and the progress printed.
\<close>

definition write_record :: "env \<Rightarrow> string \<Rightarrow> (string \<times> json) list \<Rightarrow> state \<Rightarrow> (exn + unit) \<times> state" where
  "write_record E cache_path kvs s =
     (let s1 = s\<lparr>out := out s @ [dumps E (JObj kvs) @ ''\<newline>''], written := written s + 1\<rparr> in
      if written s1 mod 50 = 0
      then and_then (save_cache E cache_path s1)
             (\<lambda>_ s2. (Inr (), emit (Print (Progress (written s2) (total_read s2))) (emit Flush s2)))
      else (Inr (), s1))"

text \<open>
  Lines 136 to 169, for one decoded object. \<^verbatim>\<open>obj.get\<close> exists on a dict only.
\<close>

definition handle_record ::
  "env \<Rightarrow> string \<Rightarrow> real \<Rightarrow> bool \<Rightarrow> key set \<Rightarrow> json \<Rightarrow> state \<Rightarrow> (exn + unit) \<times> state" where
  "handle_record E cache_path delay resume existing_ids obj s =
     (case obj of
        JObj kvs \<Rightarrow>
          (case should_skip resume existing_ids (dict_get kvs ''mesh_id'') of
             Inl x \<Rightarrow> (Inl x, s)
           | Inr True \<Rightarrow> (Inr (), s)
           | Inr False \<Rightarrow>
               and_then (translate_field E ''term_en'' ''term_vi'' kvs s)
                 (\<lambda>kvs1 s1. and_then (py_sleep E delay s1)
                   (\<lambda>_ s2. and_then (translate_field E ''definition'' ''definition_vi'' kvs1 s2)
                     (\<lambda>kvs2 s3. and_then (py_sleep E delay s3)
                       (\<lambda>_ s4. write_record E cache_path kvs2 s4)))))
      | _ \<Rightarrow> (Inl AttributeError, s))"

text \<open>
  Lines 127 to 169, for the text of one complete object: a text that does not decode is
  reported and skipped, a decoded object is counted and handled.
\<close>

definition on_text ::
  "env \<Rightarrow> string \<Rightarrow> real \<Rightarrow> bool \<Rightarrow> key set \<Rightarrow> string \<Rightarrow> state \<Rightarrow> (exn + unit) \<times> state" where
  "on_text E cache_path delay resume existing_ids text s =
     (case loads E text of
        None \<Rightarrow> (Inr (), emit (Print ParseError) s)
      | Some obj \<Rightarrow>
          handle_record E cache_path delay resume existing_ids obj
            (s\<lparr>total_read := total_read s + 1\<rparr>))"

section \<open>The streaming reader\<close>

text \<open>
  The scanner's variables, and its step on one character (lines 113 to 126, with the
  reset of \<^verbatim>\<open>current\<close> of lines 131 and 133): the new variables, and the accumulated
  text when the brace depth has returned to zero.
\<close>

record scanner =
  in_array :: bool
  brace_count :: int
  current :: string

definition scan_char :: "char \<Rightarrow> scanner \<Rightarrow> scanner \<times> string option" where
  "scan_char ch sc =
     (if \<not> in_array sc
      then ((if ch = CHR ''['' then sc\<lparr>in_array := True\<rparr> else sc), None)
      else
        (let sc1 = (if ch = CHR ''{'' then sc\<lparr>brace_count := brace_count sc + 1\<rparr> else sc);
             sc2 = (if brace_count sc1 > 0 then sc1\<lparr>current := current sc1 @ [ch]\<rparr> else sc1)
         in if ch = CHR ''}''
            then (let sc3 = sc2\<lparr>brace_count := brace_count sc2 - 1\<rparr> in
                  if brace_count sc3 = 0
                  then (sc3\<lparr>current := []\<rparr>, Some (current sc3))
                  else (sc3, None))
            else (sc2, None)))"

definition init_scanner :: scanner where
  "init_scanner = \<lparr>in_array = False, brace_count = 0, current = []\<rparr>"

text \<open>The loop \<^verbatim>\<open>for ch in chunk\<close>: an exception of the record handling ends it.\<close>

fun chars_loop ::
  "env \<Rightarrow> string \<Rightarrow> real \<Rightarrow> bool \<Rightarrow> key set \<Rightarrow> string \<Rightarrow> scanner \<Rightarrow> state
     \<Rightarrow> (exn + unit) \<times> scanner \<times> state" where
  "chars_loop E cache_path delay resume existing_ids [] sc s = (Inr (), sc, s)"
| "chars_loop E cache_path delay resume existing_ids (ch # rest) sc s =
     (case scan_char ch sc of
        (sc', None) \<Rightarrow> chars_loop E cache_path delay resume existing_ids rest sc' s
      | (sc', Some text) \<Rightarrow>
          (case on_text E cache_path delay resume existing_ids text s of
             (Inl x, s') \<Rightarrow> (Inl x, sc', s')
           | (Inr u, s') \<Rightarrow> chars_loop E cache_path delay resume existing_ids rest sc' s'))"

text \<open>
  The loop \<^verbatim>\<open>while True: chunk = f_in.read(65536)\<close> over the part of the input file not
  yet read; it ends at the empty chunk.
\<close>

function read_loop ::
  "env \<Rightarrow> string \<Rightarrow> real \<Rightarrow> bool \<Rightarrow> key set \<Rightarrow> string \<Rightarrow> scanner \<Rightarrow> state
     \<Rightarrow> (exn + unit) \<times> scanner \<times> state" where
  "read_loop E cache_path delay resume existing_ids unread sc s =
     (let chunk = take 65536 unread in
      if chunk = [] then (Inr (), sc, s)
      else (case chars_loop E cache_path delay resume existing_ids chunk sc s of
              (Inl x, sc', s') \<Rightarrow> (Inl x, sc', s')
            | (Inr u, sc', s') \<Rightarrow>
                read_loop E cache_path delay resume existing_ids (drop 65536 unread) sc' s'))"
  by pat_completeness auto
termination
  by (relation "measure (\<lambda>(E, cache_path, delay, resume, existing_ids, unread, sc, s). length unread)")
    auto

declare read_loop.simps [simp del]

text \<open>
  \<^verbatim>\<open>process(input_path, output_path, cache_path, delay, resume)\<close>. The files are given by
  their contents: \<open>input\<close> is the text of the input file, \<open>existing\<close> the lines of the
  output file found at the start (\<open>None\<close> when there is none), and the cache of the
  state is the dict that \<^verbatim>\<open>load_cache\<close> returned. The result carries the lines this run
  has written; an exception leaves the loop and skips the final \<^verbatim>\<open>save_cache\<close>. The
  banner and summary messages are left out.
\<close>

definition process ::
  "env \<Rightarrow> string \<Rightarrow> string list option \<Rightarrow> string \<Rightarrow> real \<Rightarrow> bool \<Rightarrow> state \<Rightarrow> (exn + unit) \<times> state" where
  "process E input existing cache_path delay resume s =
     (let ids = resume_set E resume existing;
          s0 = s\<lparr>out := [], written := 0, total_read := 0\<rparr>
      in case read_loop E cache_path delay resume ids input init_scanner s0 of
           (Inl x, sc, s') \<Rightarrow> (Inl x, s')
         | (Inr u, sc, s') \<Rightarrow> save_cache E cache_path s')"

text \<open>
  The output file after the run: opened with mode \<^verbatim>\<open>'a'\<close> when resuming, which keeps
  the existing lines, and with mode \<^verbatim>\<open>'w'\<close> otherwise.
\<close>

definition output_file :: "bool \<Rightarrow> string list option \<Rightarrow> string list \<Rightarrow> string list" where
  "output_file resume existing new =
     (if resume then (case existing of Some lines \<Rightarrow> lines | None \<Rightarrow> []) else []) @ new"

section \<open>Notions used to state the properties\<close>

subsection \<open>What the reader yields\<close>

text \<open>
  The texts the scanner completes on a string of characters, in order, with its final
  variables: the texts that \<^verbatim>\<open>process\<close> hands to \<^verbatim>\<open>json.loads\<close>. The objects the reader
  yields are the ones among them that decode.
\<close>

fun scan_all :: "string \<Rightarrow> scanner \<Rightarrow> string list \<times> scanner" where
  "scan_all [] sc = ([], sc)"
| "scan_all (ch # rest) sc =
     (case scan_char ch sc of
        (sc', None) \<Rightarrow> scan_all rest sc'
      | (sc', Some text) \<Rightarrow> (case scan_all rest sc' of (texts, sc'') \<Rightarrow> (text # texts, sc'')))"

definition read_objects :: "env \<Rightarrow> string \<Rightarrow> json list" where
  "read_objects E input = List.map_filter (loads E) (fst (scan_all input init_scanner))"

text \<open>Handling a sequence of object texts one after the other, as the loop body does.\<close>

fun texts_loop ::
  "env \<Rightarrow> string \<Rightarrow> real \<Rightarrow> bool \<Rightarrow> key set \<Rightarrow> string list \<Rightarrow> state \<Rightarrow> (exn + unit) \<times> state" where
  "texts_loop E cache_path delay resume existing_ids [] s = (Inr (), s)"
| "texts_loop E cache_path delay resume existing_ids (text # rest) s =
     and_then (on_text E cache_path delay resume existing_ids text s)
       (\<lambda>_. texts_loop E cache_path delay resume existing_ids rest)"

text \<open>
  The layout of an input file on which counting braces finds the objects: some text
  without \<^verbatim>\<open>[\<close>, the opening \<^verbatim>\<open>[\<close>, then the object texts, each followed by a separator
  without braces (the commas, the white space, the closing \<^verbatim>\<open>]\<close>). An object text is
  \<^verbatim>\<open>{\<close>, a text whose braces are properly nested, and \<^verbatim>\<open>}\<close>: the text of a JSON object
  all of whose braces are structural, that is, none of whose strings holds a brace.
\<close>

definition brace_free :: "string \<Rightarrow> bool" where
  "brace_free t \<longleftrightarrow> CHR ''{'' \<notin> set t \<and> CHR ''}'' \<notin> set t"

inductive nested :: "string \<Rightarrow> bool" where
  plain: "brace_free t \<Longrightarrow> nested t"
| braces: "nested t \<Longrightarrow> nested (CHR ''{'' # t @ [CHR ''}''])"
| juxta: "nested t \<Longrightarrow> nested u \<Longrightarrow> nested (t @ u)"

definition object_text :: "string \<Rightarrow> bool" where
  "object_text t \<longleftrightarrow> (\<exists>b. nested b \<and> t = CHR ''{'' # b @ [CHR ''}''])"

definition array_text :: "string \<Rightarrow> string \<Rightarrow> (string \<times> string) list \<Rightarrow> string" where
  "array_text pre sep0 items = pre @ CHR ''['' # sep0 @ concat (map (\<lambda>(t, sep). t @ sep) items)"

subsection \<open>Records and what is written for them\<close>

text \<open>
  A value that \<^verbatim>\<open>translate_text\<close> accepts as a field: a str, or a falsy value, which is
  never passed on. A record is well typed when it is a dict, its two source fields are
  such values and, in resume mode, a truthy identifier is hashable.
\<close>

definition text_field :: "json \<Rightarrow> bool" where
  "text_field v = (case v of JStr t \<Rightarrow> True | _ \<Rightarrow> \<not> truthy v)"

definition well_typed :: "bool \<Rightarrow> json \<Rightarrow> bool" where
  "well_typed resume obj =
     (case obj of
        JObj kvs \<Rightarrow>
          (\<not> (resume \<and> truthy (dict_get kvs ''mesh_id'')) \<or> py_key (dict_get kvs ''mesh_id'') \<noteq> None)
          \<and> text_field (dict_get kvs ''term_en'') \<and> text_field (dict_get kvs ''definition'')
      | _ \<Rightarrow> False)"

text \<open>
  An identifier is already written when it is truthy and the resume set holds it; a
  record is skipped when resume mode is on and its identifier is already written.
\<close>

definition already_written :: "key set \<Rightarrow> json \<Rightarrow> bool" where
  "already_written existing_ids mesh_id =
     (truthy mesh_id \<and> (case py_key mesh_id of Some k \<Rightarrow> k \<in> existing_ids | None \<Rightarrow> False))"

definition skipped :: "bool \<Rightarrow> key set \<Rightarrow> json \<Rightarrow> bool" where
  "skipped resume existing_ids obj =
     (case obj of JObj kvs \<Rightarrow> resume \<and> already_written existing_ids (dict_get kvs ''mesh_id'')
      | _ \<Rightarrow> False)"

text \<open>
  \<open>vi_step dst kvs kvs'\<close>: the dict \<open>kvs'\<close> is \<open>kvs\<close>, or \<open>kvs\<close> with a truthy value
  stored under \<open>dst\<close>. A written dict is a translation of a decoded object when it comes
  from it by such a step for \<^verbatim>\<open>term_vi\<close> and then one for \<^verbatim>\<open>definition_vi\<close>.
\<close>

definition vi_step :: "string \<Rightarrow> (string \<times> json) list \<Rightarrow> (string \<times> json) list \<Rightarrow> bool" where
  "vi_step dst kvs kvs' \<longleftrightarrow> kvs' = kvs \<or> (\<exists>r. truthy r \<and> kvs' = AList.update dst r kvs)"

definition translation_of :: "json \<Rightarrow> (string \<times> json) list \<Rightarrow> bool" where
  "translation_of obj kvs' \<longleftrightarrow>
     (\<exists>kvs kvs1. obj = JObj kvs \<and> vi_step ''term_vi'' kvs kvs1 \<and> vi_step ''definition_vi'' kvs1 kvs')"

text \<open>The line written for a dict, and the texts of the two source fields of a record.\<close>

definition line_of :: "env \<Rightarrow> (string \<times> json) list \<Rightarrow> string" where
  "line_of E kvs = dumps E (JObj kvs) @ ''\<newline>''"

definition field_texts :: "json \<Rightarrow> string set" where
  "field_texts obj =
     (case obj of JObj kvs \<Rightarrow> {t. JStr t = dict_get kvs ''term_en'' \<or> JStr t = dict_get kvs ''definition''}
      | _ \<Rightarrow> {})"

subsection \<open>Frames\<close>

text \<open>
  \<open>same_frame\<close>: only the cache and the trace may differ. \<open>quiet\<close>: the cache, the
  written lines, the counters, and the provider calls, sleeps and constructions of the
  trace are the same.
\<close>

definition same_frame :: "state \<Rightarrow> state \<Rightarrow> bool" where
  "same_frame s s' \<longleftrightarrow> out s' = out s \<and> written s' = written s \<and> total_read s' = total_read s
     \<and> files s' = files s \<and> history s' = history s \<and> saves s' = saves s"

definition quiet :: "state \<Rightarrow> state \<Rightarrow> bool" where
  "quiet s s' \<longleftrightarrow> cache s' = cache s \<and> out s' = out s \<and> written s' = written s
     \<and> total_read s' = total_read s \<and> invoked s' = invoked s \<and> sleeps s' = sleeps s
     \<and> constructions s' = constructions s"

subsection \<open>Values of translations\<close>

text \<open>
  A good value is \<^verbatim>\<open>None\<close> or a non-empty str; a cache is good when all its values are.
  The provider is typed as returning a str or \<^verbatim>\<open>None\<close>. \<open>vi_ok kvs kvs' dst\<close>: the
  key \<open>dst\<close> of the written dict \<open>kvs'\<close> is as in the input dict \<open>kvs\<close> (absent when
  absent there), or bound to a non-empty str.
\<close>

definition good_value :: "json \<Rightarrow> bool" where
  "good_value v = (case v of JNull \<Rightarrow> True | JStr r \<Rightarrow> r \<noteq> [] | _ \<Rightarrow> False)"

definition str_or_none :: "json \<Rightarrow> bool" where
  "str_or_none v = (case v of JNull \<Rightarrow> True | JStr r \<Rightarrow> True | _ \<Rightarrow> False)"

definition good_cache :: "(string \<times> json) list \<Rightarrow> bool" where
  "good_cache c \<longleftrightarrow> (\<forall>t v. map_of c t = Some v \<longrightarrow> good_value v)"

definition vi_ok :: "(string \<times> json) list \<Rightarrow> (string \<times> json) list \<Rightarrow> string \<Rightarrow> bool" where
  "vi_ok kvs kvs' dst \<longleftrightarrow>
     map_of kvs' dst = map_of kvs dst \<or> (\<exists>r. r \<noteq> [] \<and> map_of kvs' dst = Some (JStr r))"

subsection \<open>Durations that can be slept\<close>

text \<open>
  A duration that \<^verbatim>\<open>time.sleep\<close> accepts, and a base delay whose first \<open>n\<close> backoff
  delays \<^verbatim>\<open>base_delay * 2 ** i\<close> can be computed and slept.
\<close>

definition sleep_ok :: "env \<Rightarrow> real \<Rightarrow> bool" where
  "sleep_ok E d \<longleftrightarrow> 0 \<le> d \<and> d \<le> max_sleep E"

definition backoff_ok :: "env \<Rightarrow> real \<Rightarrow> nat \<Rightarrow> bool" where
  "backoff_ok E base n \<longleftrightarrow> (\<forall>i<n. i < 1024 \<and> sleep_ok E (base * 2 ^ i))"

subsection \<open>Identifiers in the existing output file\<close>

text \<open>
  A line of the existing output file names an identifier when it decodes to a dict
  whose \<^verbatim>\<open>mesh_id\<close> is hashable and equal to it, as Python compares the members of a
  set. The identifier of a record is written before when it is truthy and some line of
  the file names it, wherever in the file that line stands and whatever the other lines
  are.
\<close>

definition names_id :: "env \<Rightarrow> json \<Rightarrow> string \<Rightarrow> bool" where
  "names_id E m line =
     (case loads E line of
        Some (JObj kvs) \<Rightarrow>
          (case map_of kvs ''mesh_id'' of
             Some v \<Rightarrow> py_key v \<noteq> None \<and> py_key v = py_key m
           | None \<Rightarrow> False)
      | _ \<Rightarrow> False)"

definition written_before :: "env \<Rightarrow> string list \<Rightarrow> json \<Rightarrow> bool" where
  "written_before E lines m \<longleftrightarrow> truthy m \<and> list_ex (names_id E m) lines"

section \<open>Sample runs\<close>

text \<open>The state before a run with an empty cache.\<close>

definition fresh :: state where
  "fresh = \<lparr>cache = [], trace = [], out = [], written = 0, total_read = 0,
     files = Map.empty, history = [], saves = 0\<rparr>"

text \<open>
  A sample environment is given by a table of JSON texts with the values they denote:
  \<open>loads\<close> looks a text up (a text outside the table does not decode) and \<open>dumps\<close>
  gives the first text listed for a value. A second table gives the text written for a
  cache. The provider and the faults are passed as they are, and the longest sleep
  is that of a signed 64-bit count of nanoseconds.
\<close>

definition sample_env ::
  "(string \<times> json) list \<Rightarrow> ((string \<times> json) list \<times> string) list
     \<Rightarrow> (nat \<Rightarrow> string option) \<Rightarrow> (nat \<Rightarrow> string \<Rightarrow> reply) \<Rightarrow> (nat \<Rightarrow> fault) \<Rightarrow> env" where
  "sample_env texts cache_texts ctor prov flt =
     \<lparr>loads = map_of texts,
      dumps = (\<lambda>v. case find (\<lambda>(t, v'). v' = v) texts of Some (t, v') \<Rightarrow> t | None \<Rightarrow> []),
      dump_cache = (\<lambda>c. case map_of cache_texts c of Some t \<Rightarrow> t | None \<Rightarrow> []),
      construct = ctor, translate = prov, fault = flt, max_sleep = 9223372036\<rparr>"

text \<open>
  A provider whose first \<open>n\<close> calls raise and whose later calls return \<open>t\<close>; nothing
  else fails.
\<close>

definition flaky :: "nat \<Rightarrow> json \<Rightarrow> env" where
  "flaky n t =
     sample_env [] [] (\<lambda>_. None) (\<lambda>k text. if k < n then Raises ''timeout'' else Returns t)
       (\<lambda>_. NoFault)"

text \<open>
  An environment for \<^verbatim>\<open>save_cache\<close> with the given faults, and a state whose cache has
  one entry while the cache file on disk still holds an empty dict.
\<close>

definition cache_env :: "(nat \<Rightarrow> fault) \<Rightarrow> env" where
  \<open>cache_env flt =
     sample_env [] [([(''heart'', JStr ''tim'')], ''{"heart": "tim"}'')]
       (\<lambda>_. None) (\<lambda>k text. Returns JNull) flt\<close>

definition on_disk :: state where
  "on_disk = fresh\<lparr>cache := [(''heart'', JStr ''tim'')], files := [''cache.json'' \<mapsto> ''{}'']\<rparr>"

text \<open>
  A table of two object texts, and the environment over a table in which the client is
  constructed without fault, the provider returns \<^verbatim>\<open>None\<close> and the file system works.
\<close>

definition two_objects :: "(string \<times> json) list" where
  \<open>two_objects =
     [(''{"a": 1}'', JObj [(''a'', JInt 1)]),
      (''{"b": {"c": 2}}'', JObj [(''b'', JObj [(''c'', JInt 2)])])]\<close>

definition silent :: "(string \<times> json) list \<Rightarrow> env" where
  "silent texts = sample_env texts [] (\<lambda>_. None) (\<lambda>k text. Returns JNull) (\<lambda>_. NoFault)"

text \<open>
  The resume scenario: an input array of the records A, B and C, an output file that
  holds a line cut short, which does not decode, and then the lines of A and B, and a
  provider that translates at once.
\<close>

definition abc_texts :: "(string \<times> json) list" where
  \<open>abc_texts =
     [(''{"mesh_id": "A", "term_en": "heart"}'', JObj [(''mesh_id'', JStr ''A''), (''term_en'', JStr ''heart'')]),
      (''{"mesh_id": "B", "term_en": "lung"}'', JObj [(''mesh_id'', JStr ''B''), (''term_en'', JStr ''lung'')]),
      (''{"mesh_id": "C", "term_en": "liver"}'', JObj [(''mesh_id'', JStr ''C''), (''term_en'', JStr ''liver'')]),
      (''{"mesh_id": "C", "term_en": "liver", "term_vi": "gan"}'',
         JObj [(''mesh_id'', JStr ''C''), (''term_en'', JStr ''liver''), (''term_vi'', JStr ''gan'')]),
      (''{"mesh_id": "A", "term_en": "heart"}\<newline>'', JObj [(''mesh_id'', JStr ''A''), (''term_en'', JStr ''heart'')]),
      (''{"mesh_id": "B", "term_en": "lung"}\<newline>'', JObj [(''mesh_id'', JStr ''B''), (''term_en'', JStr ''lung'')])]\<close>

definition abc_env :: env where
  "abc_env = sample_env abc_texts [] (\<lambda>_. None) (\<lambda>k text. Returns (JStr ''gan'')) (\<lambda>_. NoFault)"

definition abc_input :: string where
  \<open>abc_input = ''[{"mesh_id": "A", "term_en": "heart"}, {"mesh_id": "B", "term_en": "lung"}, {"mesh_id": "C", "term_en": "liver"}]''\<close>

definition ab_lines :: "string list" where
  \<open>ab_lines = [''{"mesh_id": "C", "term_en": "li\<newline>'',
     ''{"mesh_id": "A", "term_en": "heart"}\<newline>'', ''{"mesh_id": "B", "term_en": "lung"}\<newline>'']\<close>

text \<open>
  A run in which everything outside fails: every call of the provider raises, the
  cache file cannot be opened for writing, and the second of three object texts of the
  input does not decode.
\<close>

definition failing_env :: env where
  "failing_env =
     sample_env abc_texts [] (\<lambda>_. None) (\<lambda>k text. Raises ''timeout'') (\<lambda>_. OpenFails ''read-only'')"

definition ab_input :: string where
  \<open>ab_input = ''[{"mesh_id": "A", "term_en": "heart"}, {oops}, {"mesh_id": "B", "term_en": "lung"}]''\<close>

text \<open>An environment in which the translation client cannot be constructed.\<close>

definition broken_env :: env where
  "broken_env =
     sample_env abc_texts [] (\<lambda>_. Some ''no network'') (\<lambda>k text. Returns (JStr ''gan''))
       (\<lambda>_. NoFault)"

text \<open>A record without identifier, before and after its translation.\<close>

definition no_id_texts :: "(string \<times> json) list" where
  \<open>no_id_texts =
     [(''{"term_en": "heart"}'', JObj [(''term_en'', JStr ''heart'')]),
      (''{"term_en": "heart", "term_vi": "tim"}'',
         JObj [(''term_en'', JStr ''heart''), (''term_vi'', JStr ''tim'')]),
      (''{"term_en": "heart", "term_vi": "tim"}\<newline>'',
         JObj [(''term_en'', JStr ''heart''), (''term_vi'', JStr ''tim'')])]\<close>

definition no_id_env :: env where
  "no_id_env =
     sample_env no_id_texts [] (\<lambda>_. None) (\<lambda>k text. Returns (JStr ''tim'')) (\<lambda>_. NoFault)"

text \<open>
  A provider whose first \<open>n\<close> calls return \<^verbatim>\<open>None\<close> and whose later calls return \<open>t\<close>.
\<close>

definition hollow :: "nat \<Rightarrow> json \<Rightarrow> env" where
  "hollow n t =
     sample_env [] [] (\<lambda>_. None) (\<lambda>k text. if k < n then Returns JNull else Returns t)
       (\<lambda>_. NoFault)"

text \<open>
  Records that are not well typed, each followed by the record B: one whose \<^verbatim>\<open>term_en\<close>
  is a number and one whose \<^verbatim>\<open>mesh_id\<close> is a list.
\<close>

definition odd_texts :: "(string \<times> json) list" where
  \<open>odd_texts =
     [(''{"mesh_id": "A", "term_en": 5}'', JObj [(''mesh_id'', JStr ''A''), (''term_en'', JInt 5)]),
      (''{"mesh_id": ["A"], "term_en": "heart"}'',
         JObj [(''mesh_id'', JArr [JStr ''A'']), (''term_en'', JStr ''heart'')]),
      (''{"mesh_id": "B", "term_en": "lung"}'', JObj [(''mesh_id'', JStr ''B''), (''term_en'', JStr ''lung'')])]\<close>

definition odd_env :: env where
  "odd_env = sample_env odd_texts [] (\<lambda>_. None) (\<lambda>k text. Returns (JStr ''gan'')) (\<lambda>_. NoFault)"

definition number_input :: string where
  \<open>number_input = ''[{"mesh_id": "A", "term_en": 5}, {"mesh_id": "B", "term_en": "lung"}]''\<close>

definition list_id_input :: string where
  \<open>list_id_input = ''[{"mesh_id": ["A"], "term_en": "heart"}, {"mesh_id": "B", "term_en": "lung"}]''\<close>

text \<open>
  A record that already carries a translation, read in a run in which every call of the
  provider raises.
\<close>

definition kept_texts :: "(string \<times> json) list" where
  \<open>kept_texts =
     [(''{"mesh_id": "A", "term_en": "heart", "term_vi": "old"}'',
         JObj [(''mesh_id'', JStr ''A''), (''term_en'', JStr ''heart''), (''term_vi'', JStr ''old'')])]\<close>

definition kept_env :: env where
  "kept_env = sample_env kept_texts [] (\<lambda>_. None) (\<lambda>k text. Raises ''timeout'') (\<lambda>_. NoFault)"

definition kept_input :: string where
  \<open>kept_input = ''[{"mesh_id": "A", "term_en": "heart", "term_vi": "old"}]''\<close>

section \<open>Auxiliary facts\<close>

lemma trace_emit [simp]: "trace (emit e s) = trace s @ [e]"
  and cache_emit [simp]: "cache (emit e s) = cache s"
  and out_emit [simp]: "out (emit e s) = out s"
  and written_emit [simp]: "written (emit e s) = written s"
  and total_read_emit [simp]: "total_read (emit e s) = total_read s"
  and files_emit [simp]: "files (emit e s) = files s"
  and history_emit [simp]: "history (emit e s) = history s"
  and saves_emit [simp]: "saves (emit e s) = saves s"
  by (simp_all add: emit_def)

lemma invoked_emit [simp]: "invoked (emit e s) = invoked s @ invoke_text e"
  by (simp add: invoked_def)

lemma sleeps_emit [simp]: "sleeps (emit e s) = sleeps s @ sleep_time e"
  by (simp add: sleeps_def)

lemma constructions_emit [simp]:
  "constructions (emit e s) = constructions s + (if e = Construct then 1 else 0)"
  by (simp add: constructions_def)

lemma invoked_cache_update [simp]: "invoked (s\<lparr>cache := c\<rparr>) = invoked s"
  and sleeps_cache_update [simp]: "sleeps (s\<lparr>cache := c\<rparr>) = sleeps s"
  and constructions_cache_update [simp]: "constructions (s\<lparr>cache := c\<rparr>) = constructions s"
  by (simp_all add: invoked_def sleeps_def constructions_def)

lemma strip_empty_iff: "strip text = [] \<longleftrightarrow> (\<forall>c\<in>set text. isspace c)"
proof
  assume "strip text = []"
  then have all: "\<forall>c\<in>set (dropWhile isspace text). isspace c"
    by (simp add: strip_def)
  have "dropWhile isspace text = []"
  proof (rule ccontr)
    assume ne: "dropWhile isspace text \<noteq> []"
    then have "\<not> isspace (hd (dropWhile isspace text))"
      by (rule hd_dropWhile)
    moreover have "hd (dropWhile isspace text) \<in> set (dropWhile isspace text)"
      using ne by simp
    ultimately show False using all by blast
  qed
  then show "\<forall>c\<in>set text. isspace c"
    by simp
next
  assume "\<forall>c\<in>set text. isspace c"
  then show "strip text = []"
    by (auto simp: strip_def dest: set_dropWhileD)
qed

lemma py_sleep_ok: "sleep_ok E d \<Longrightarrow> py_sleep E d s = (Inr (), emit (Sleep d) s)"
  by (simp add: py_sleep_def sleep_ok_def)

lemma retry_loop_frame:
  "retry_loop E text retries base as s = (r, s') \<Longrightarrow> same_frame s s'"
proof (induction as arbitrary: s)
  case Nil
  then show ?case by (auto simp: same_frame_def)
next
  case (Cons a as)
  then show ?case
    by (auto simp: same_frame_def and_then_def py_sleep_def split: reply.splits if_splits
        dest!: Cons.IH)
qed

lemma translate_text_frame:
  "translate_text E text retries base s = (r, s') \<Longrightarrow> same_frame s s'"
  by (auto simp: translate_text_def same_frame_def split: if_splits option.splits
      dest!: retry_loop_frame)

lemma retry_loop_success:
  "retry_loop E text retries base as s = (Inr v, s') \<Longrightarrow> truthy v \<Longrightarrow> map_of (cache s') text = Some v"
proof (induction as arbitrary: s)
  case Nil
  then show ?case by auto
next
  case (Cons a as)
  then show ?case
    by (auto simp: and_then_def py_sleep_def update_conv' split: reply.splits if_splits)
qed

lemma retry_loop_raises:
  assumes "\<forall>k<n. nat a + k < 1024 \<and> sleep_ok E (base * 2 ^ (nat a + k))"
    and "\<forall>k<n. \<exists>e. translate E (length (invoked s) + k) text = Raises e"
    and "0 \<le> a" and "a + int n \<le> retries - 1"
  shows "\<exists>s'. retry_loop E text retries base [a..retries - 1] s
           = retry_loop E text retries base [a + int n..retries - 1] s'
         \<and> invoked s' = invoked s @ replicate n text
         \<and> sleeps s' = sleeps s @ map (\<lambda>i. base * 2 ^ (nat a + i)) [0..<n]
         \<and> cache s' = cache s \<and> constructions s' = constructions s \<and> same_frame s s'"
  using assms
proof (induction n arbitrary: a s)
  case 0
  then show ?case by (auto simp: same_frame_def)
next
  case (Suc n)
  from Suc.prems(2) obtain e where e: "translate E (length (invoked s)) text = Raises e"
    by (metis add.right_neutral zero_less_Suc)
  let ?d = "base * 2 ^ nat a"
  let ?s1 = "emit (Sleep ?d) (emit (Print (Retry (a + 1) retries ?d (take 40 e))) (emit (Invoke text) s))"
  have d: "sleep_ok E ?d" "a < 1024" using Suc.prems(1,3) by (auto dest: spec [of _ 0])
  have unfold: "[a..retries - 1] = a # [a + 1..retries - 1]"
    using Suc.prems(4) by (simp add: upto_rec1)
  have step: "retry_loop E text retries base [a..retries - 1] s
      = retry_loop E text retries base [a + 1..retries - 1] ?s1"
    using e Suc.prems(4) d by (simp add: unfold and_then_def py_sleep_ok)
  have ok': "\<forall>k<n. nat (a + 1) + k < 1024 \<and> sleep_ok E (base * 2 ^ (nat (a + 1) + k))"
  proof (intro allI impI)
    fix k assume "k < n"
    then have "Suc k < Suc n" by simp
    with Suc.prems(1) have "nat a + Suc k < 1024 \<and> sleep_ok E (base * 2 ^ (nat a + Suc k))"
      by blast
    moreover have "nat (a + 1) + k = nat a + Suc k" using Suc.prems(3) by simp
    ultimately show "nat (a + 1) + k < 1024 \<and> sleep_ok E (base * 2 ^ (nat (a + 1) + k))"
      by simp
  qed
  have "\<forall>k<n. \<exists>e. translate E (length (invoked ?s1) + k) text = Raises e"
    using Suc.prems(2) by (auto simp: Suc_less_eq2)
  from Suc.IH [OF ok' this] Suc.prems(3,4)
  obtain s' where s': "retry_loop E text retries base [a + 1..retries - 1] ?s1
           = retry_loop E text retries base [a + 1 + int n..retries - 1] s'"
      "invoked s' = invoked ?s1 @ replicate n text"
      "sleeps s' = sleeps ?s1 @ map (\<lambda>i. base * 2 ^ (nat (a + 1) + i)) [0..<n]"
      "cache s' = cache ?s1" "constructions s' = constructions ?s1" "same_frame ?s1 s'"
    by auto
  have shift: "map (\<lambda>i. base * 2 ^ (nat a + i)) [0..<Suc n]
      = ?d # map (\<lambda>i. base * 2 ^ (nat (a + 1) + i)) [0..<n]"
  proof -
    have "[0..<Suc n] = 0 # map Suc [0..<n]"
      by (simp add: upt_conv_Cons map_Suc_upt del: upt_Suc)
    moreover have "nat (a + 1) = Suc (nat a)" using Suc.prems(3) by simp
    ultimately show ?thesis by (simp add: comp_def del: upt_Suc)
  qed
  have "a + 1 + int n = a + int (Suc n)" by simp
  with step s' shift show ?case
    by (intro exI [of _ s']) (auto simp: same_frame_def replicate_append_same simp del: upt_Suc)
qed

lemma blank_iff: "blank text \<longleftrightarrow> text = [] \<or> strip text = []"
  by (auto simp: blank_def strip_empty_iff)

lemma translate_text_hit:
  "\<not> blank text \<Longrightarrow> map_of (cache s) text = Some v \<Longrightarrow> translate_text E text retries base s = (Inr v, s)"
  by (simp add: translate_text_def blank_iff)

lemma translate_text_truthy_cached:
  assumes "translate_text E text retries base s = (Inr v, s')" "truthy v"
  shows "\<not> blank text \<and> map_of (cache s') text = Some v"
  using assms
  by (auto simp: translate_text_def blank_iff split: if_splits option.splits
      dest: retry_loop_success)

lemma scan_all_append:
  "scan_all (a @ b) sc =
     (case scan_all a sc of (ts1, sc1) \<Rightarrow> (case scan_all b sc1 of (ts2, sc2) \<Rightarrow> (ts1 @ ts2, sc2)))"
  by (induction a arbitrary: sc) (auto split: prod.splits option.splits)

lemma scan_all_before_array:
  "CHR ''['' \<notin> set pre \<Longrightarrow> \<not> in_array sc \<Longrightarrow> scan_all pre sc = ([], sc)"
  by (induction pre arbitrary: sc) (auto simp: scan_char_def)

lemma scan_all_brace_free_outside:
  "brace_free sep \<Longrightarrow> in_array sc \<Longrightarrow> brace_count sc \<le> 0 \<Longrightarrow> scan_all sep sc = ([], sc)"
  by (induction sep arbitrary: sc) (auto simp: scan_char_def brace_free_def)

lemma scan_all_brace_free_inside:
  "brace_free t \<Longrightarrow> in_array sc \<Longrightarrow> 0 < brace_count sc
    \<Longrightarrow> scan_all t sc = ([], sc\<lparr>current := current sc @ t\<rparr>)"
  by (induction t arbitrary: sc) (auto simp: scan_char_def brace_free_def)

lemma scan_all_nested:
  "nested b \<Longrightarrow> in_array sc \<Longrightarrow> 0 < brace_count sc
    \<Longrightarrow> scan_all b sc = ([], sc\<lparr>current := current sc @ b\<rparr>)"
proof (induction b arbitrary: sc rule: nested.induct)
  case (plain t)
  then show ?case by (simp add: scan_all_brace_free_inside)
next
  case (braces t)
  let ?sc1 = "sc\<lparr>brace_count := brace_count sc + 1, current := current sc @ [CHR ''{'']\<rparr>"
  have "scan_all t ?sc1 = ([], ?sc1\<lparr>current := current ?sc1 @ t\<rparr>)"
    using braces.prems by (intro braces.IH) auto
  then show ?case
    using braces.prems by (simp add: scan_all_append scan_char_def)
next
  case (juxta t u)
  then show ?case by (simp add: scan_all_append)
qed

lemma scan_all_object:
  assumes "object_text t" "in_array sc" "brace_count sc = 0" "current sc = []"
  shows "scan_all t sc = ([t], sc)"
proof -
  from assms(1) obtain b where b: "nested b" "t = CHR ''{'' # b @ [CHR ''}'']"
    by (auto simp: object_text_def)
  let ?sc1 = "sc\<lparr>brace_count := 1, current := [CHR ''{'']\<rparr>"
  have "scan_all b ?sc1 = ([], ?sc1\<lparr>current := current ?sc1 @ b\<rparr>)"
    using assms(2) by (intro scan_all_nested [OF b(1)]) auto
  then show ?thesis
    using assms(2-4) b(2) by (simp add: scan_all_append scan_char_def)
qed

lemma scan_all_items:
  assumes "\<forall>(t, sep)\<in>set items. object_text t \<and> brace_free sep"
    and "in_array sc" "brace_count sc = 0" "current sc = []"
  shows "scan_all (concat (map (\<lambda>(t, sep). t @ sep) items)) sc = (map fst items, sc)"
  using assms
proof (induction items)
  case Nil
  then show ?case by simp
next
  case (Cons item items)
  obtain t sep where item: "item = (t, sep)" by (cases item)
  with Cons.prems have "object_text t" "brace_free sep" by auto
  then have "scan_all (t @ sep) sc = ([t], sc)"
    using Cons.prems(2-4)
    by (simp add: scan_all_append scan_all_object scan_all_brace_free_outside)
  moreover have "scan_all (concat (map (\<lambda>(t, sep). t @ sep) items)) sc = (map fst items, sc)"
    using Cons.prems by (intro Cons.IH) auto
  ultimately show ?case
    using item scan_all_append [of "t @ sep" "concat (map (\<lambda>(t, sep). t @ sep) items)" sc]
    by simp
qed

lemma scan_all_array:
  assumes "CHR ''['' \<notin> set pre" "brace_free sep0"
    and "\<forall>(t, sep)\<in>set items. object_text t \<and> brace_free sep"
  shows "scan_all (array_text pre sep0 items) init_scanner
     = (map fst items, init_scanner\<lparr>in_array := True\<rparr>)"
proof -
  let ?sc = "init_scanner\<lparr>in_array := True\<rparr>"
  have 1: "scan_all pre init_scanner = ([], init_scanner)"
    using assms(1) by (simp add: scan_all_before_array init_scanner_def)
  have 2: "scan_all [CHR ''[''] init_scanner = ([], ?sc)"
    by (simp add: scan_char_def init_scanner_def)
  have 3: "scan_all sep0 ?sc = ([], ?sc)"
    using assms(2) by (simp add: scan_all_brace_free_outside init_scanner_def)
  have 4: "scan_all (concat (map (\<lambda>(t, sep). t @ sep) items)) ?sc = (map fst items, ?sc)"
    using assms(3) by (intro scan_all_items) (auto simp: init_scanner_def)
  have "array_text pre sep0 items
      = pre @ [CHR ''[''] @ sep0 @ concat (map (\<lambda>(t, sep). t @ sep) items)"
    by (simp add: array_text_def)
  then show ?thesis
    using 1 2 3 4 by (simp only: scan_all_append split: prod.splits) simp
qed

lemma chars_loop_texts:
  "fst (chars_loop E cp d r ids chs sc s) = fst (texts_loop E cp d r ids (fst (scan_all chs sc)) s)
   \<and> snd (snd (chars_loop E cp d r ids chs sc s))
       = snd (texts_loop E cp d r ids (fst (scan_all chs sc)) s)"
proof (induction chs arbitrary: sc s)
  case Nil
  then show ?case by simp
next
  case (Cons ch chs)
  obtain sc' emitted where sc: "scan_char ch sc = (sc', emitted)"
    by (cases "scan_char ch sc")
  show ?case
  proof (cases emitted)
    case None
    with sc Cons.IH [of sc' s] show ?thesis by simp
  next
    case (Some t)
    obtain res s1 where on: "on_text E cp d r ids t s = (res, s1)"
      by (cases "on_text E cp d r ids t s")
    show ?thesis
    proof (cases res)
      case (Inl x)
      with on Some sc show ?thesis
        by (simp add: and_then_def split: prod.splits)
    next
      case (Inr u)
      with on Some sc Cons.IH [of sc' s1] show ?thesis
        by (simp add: and_then_def split: prod.splits)
    qed
  qed
qed

lemma chars_loop_append:
  "chars_loop E cp d r ids (a @ b) sc s =
     (case chars_loop E cp d r ids a sc s of
        (Inl x, sc', s') \<Rightarrow> (Inl x, sc', s')
      | (Inr u, sc', s') \<Rightarrow> chars_loop E cp d r ids b sc' s')"
  by (induction a arbitrary: sc s) (auto split: prod.splits option.splits sum.splits)

lemma read_loop_chars:
  "read_loop E cp d r ids unread sc s = chars_loop E cp d r ids unread sc s"
proof (induction E cp d r ids unread sc s rule: read_loop.induct)
  case (1 E cp d r ids unread sc s)
  show ?case
  proof (cases "take 65536 unread = []")
    case True
    then have "unread = []" by simp
    then show ?thesis by (subst read_loop.simps) simp
  next
    case False
    have split: "unread = take 65536 unread @ drop 65536 unread" by simp
    have chars: "chars_loop E cp d r ids unread sc s
        = (case chars_loop E cp d r ids (take 65536 unread) sc s of
             (Inl x, sc', s') \<Rightarrow> (Inl x, sc', s')
           | (Inr u, sc', s') \<Rightarrow> chars_loop E cp d r ids (drop 65536 unread) sc' s')"
      by (subst split, subst chars_loop_append) simp
    have reads: "read_loop E cp d r ids unread sc s
        = (case chars_loop E cp d r ids (take 65536 unread) sc s of
             (Inl x, sc', s') \<Rightarrow> (Inl x, sc', s')
           | (Inr u, sc', s') \<Rightarrow> read_loop E cp d r ids (drop 65536 unread) sc' s')"
      using False by (subst read_loop.simps) (simp add: Let_def)
    obtain res sc' s' where res: "chars_loop E cp d r ids (take 65536 unread) sc s = (res, sc', s')"
      by (cases "chars_loop E cp d r ids (take 65536 unread) sc s") auto
    show ?thesis
    proof (cases res)
      case (Inl x)
      with res chars reads show ?thesis by simp
    next
      case (Inr u)
      with res chars reads "1.IH" [OF refl False res [symmetric] Inr refl] show ?thesis
        by simp
    qed
  qed
qed

text \<open>
  Evaluating the scanner on a given string: one rewrite step per character; the
  recursive equation is taken out of the simplifier's rules, since it would be unfolded
  under the binders of its \<open>case\<close>.
\<close>

lemma scan_all_step:
  "scan_all (ch # rest) sc =
     (case snd (scan_char ch sc) of
        None \<Rightarrow> scan_all rest (fst (scan_char ch sc))
      | Some t \<Rightarrow> apfst ((#) t) (scan_all rest (fst (scan_char ch sc))))"
  by (cases "scan_char ch sc") (auto split: option.splits prod.splits)

lemma scan_char_eval:
  "scan_char ch \<lparr>in_array = False, brace_count = n, current = cur\<rparr>
     = (\<lparr>in_array = (ch = CHR ''[''), brace_count = n, current = cur\<rparr>, None)"
  "ch \<noteq> CHR ''{'' \<Longrightarrow> ch \<noteq> CHR ''}'' \<Longrightarrow>
   scan_char ch \<lparr>in_array = True, brace_count = n, current = cur\<rparr>
     = (\<lparr>in_array = True, brace_count = n, current = (if 0 < n then cur @ [ch] else cur)\<rparr>, None)"
  "scan_char (CHR ''{'') \<lparr>in_array = True, brace_count = n, current = cur\<rparr>
     = (\<lparr>in_array = True, brace_count = n + 1,
          current = (if 0 < n + 1 then cur @ [CHR ''{''] else cur)\<rparr>, None)"
  "scan_char (CHR ''}'') \<lparr>in_array = True, brace_count = n, current = cur\<rparr>
     = (if n = 1 then (\<lparr>in_array = True, brace_count = 0, current = []\<rparr>, Some (cur @ [CHR ''}'']))
        else (\<lparr>in_array = True, brace_count = n - 1,
                current = (if 0 < n then cur @ [CHR ''}''] else cur)\<rparr>, None))"
  by (auto simp: scan_char_def)

declare scan_all.simps(2) [simp del]

lemma map_filter_Some: "map f xs = map Some ys \<Longrightarrow> List.map_filter f xs = ys"
  by (induction xs arbitrary: ys) (auto simp: map_filter_simps)

lemma invoked_upd [simp]:
  "invoked (s\<lparr>out := a\<rparr>) = invoked s" "invoked (s\<lparr>written := b\<rparr>) = invoked s"
  "invoked (s\<lparr>total_read := c\<rparr>) = invoked s" "invoked (s\<lparr>files := d\<rparr>) = invoked s"
  "invoked (s\<lparr>history := e\<rparr>) = invoked s" "invoked (s\<lparr>saves := f\<rparr>) = invoked s"
  by (simp_all add: invoked_def)

lemma sleeps_upd [simp]:
  "sleeps (s\<lparr>out := a\<rparr>) = sleeps s" "sleeps (s\<lparr>written := b\<rparr>) = sleeps s"
  "sleeps (s\<lparr>total_read := c\<rparr>) = sleeps s" "sleeps (s\<lparr>files := d\<rparr>) = sleeps s"
  "sleeps (s\<lparr>history := e\<rparr>) = sleeps s" "sleeps (s\<lparr>saves := f\<rparr>) = sleeps s"
  by (simp_all add: sleeps_def)

lemma constructions_upd [simp]:
  "constructions (s\<lparr>out := a\<rparr>) = constructions s" "constructions (s\<lparr>written := b\<rparr>) = constructions s"
  "constructions (s\<lparr>total_read := c\<rparr>) = constructions s" "constructions (s\<lparr>files := d\<rparr>) = constructions s"
  "constructions (s\<lparr>history := e\<rparr>) = constructions s" "constructions (s\<lparr>saves := f\<rparr>) = constructions s"
  by (simp_all add: constructions_def)

lemma save_cache_returns: "fst (save_cache E path s) = Inr ()"
  by (simp add: save_cache_def Let_def and_then_def open_w_def json_dump_def os_replace_def
      split: prod.splits sum.splits fault.splits option.splits)

lemma save_cache_quiet: "quiet s (snd (save_cache E path s))"
  by (auto simp: quiet_def save_cache_def Let_def and_then_def open_w_def json_dump_def
      os_replace_def put_file_def move_file_def
      split: prod.splits sum.splits fault.splits option.splits)

lemma retry_loop_run:
  assumes "\<forall>a\<in>set as. a < retries - 1 \<longrightarrow> a < 1024 \<and> sleep_ok E (base * 2 ^ nat a)"
  shows "\<exists>v s'. retry_loop E text retries base as s = (Inr v, s') \<and> same_frame s s'
     \<and> constructions s' = constructions s
     \<and> (\<exists>n. invoked s' = invoked s @ replicate n text)
     \<and> ((v = JNull \<and> cache s' = cache s)
        \<or> (truthy v \<and> (\<exists>n. translate E n text = Returns v)
            \<and> cache s' = AList.update text v (cache s)))"
  using assms
proof (induction as arbitrary: s)
  case Nil
  show ?case by (auto simp: same_frame_def intro: exI [of _ 0])
next
  case (Cons a as)
  have rest: "\<forall>a\<in>set as. a < retries - 1 \<longrightarrow> a < 1024 \<and> sleep_ok E (base * 2 ^ nat a)"
    using Cons.prems by simp
  note IH = Cons.IH [OF rest]
  show ?case
  proof (cases "translate E (length (invoked s)) text")
    case (Returns v)
    show ?thesis
    proof (cases "truthy v")
      case True
      with Returns show ?thesis
        by (auto simp: same_frame_def intro: exI [of _ 1])
    next
      case False
      from IH [of "emit (Invoke text) s"] obtain v' s' n where
        "retry_loop E text retries base as (emit (Invoke text) s) = (Inr v', s')"
        "same_frame (emit (Invoke text) s) s'"
        "constructions s' = constructions (emit (Invoke text) s)"
        "invoked s' = invoked (emit (Invoke text) s) @ replicate n text"
        "(v' = JNull \<and> cache s' = cache (emit (Invoke text) s))
          \<or> (truthy v' \<and> (\<exists>n. translate E n text = Returns v')
              \<and> cache s' = AList.update text v' (cache (emit (Invoke text) s)))"
        by blast
      with Returns False show ?thesis
        by (auto simp: same_frame_def intro: exI [of _ "Suc n"])
    qed
  next
    case (Raises e)
    show ?thesis
    proof (cases "a < retries - 1")
      case False
      with Raises show ?thesis
        by (auto simp: same_frame_def intro: exI [of _ 1])
    next
      case True
      let ?d = "base * 2 ^ nat a"
      let ?s1 = "emit (Sleep ?d) (emit (Print (Retry (a + 1) retries ?d (take 40 e))) (emit (Invoke text) s))"
      have d: "sleep_ok E ?d" "a < 1024" using Cons.prems True by simp_all
      from IH [of ?s1] obtain v' s' n where
        "retry_loop E text retries base as ?s1 = (Inr v', s')"
        "same_frame ?s1 s'"
        "constructions s' = constructions ?s1"
        "invoked s' = invoked ?s1 @ replicate n text"
        "(v' = JNull \<and> cache s' = cache ?s1)
          \<or> (truthy v' \<and> (\<exists>n. translate E n text = Returns v')
              \<and> cache s' = AList.update text v' (cache ?s1))"
        by blast
      with Raises True d show ?thesis
        by (auto simp: same_frame_def and_then_def py_sleep_ok intro: exI [of _ "Suc n"])
    qed
  qed
qed

lemma translate_text_run:
  assumes "\<forall>n. construct E n = None"
    and "\<forall>a\<in>set [0..retries - 1]. a < retries - 1 \<longrightarrow> a < 1024 \<and> sleep_ok E (base * 2 ^ nat a)"
  shows "\<exists>v s'. translate_text E text retries base s = (Inr v, s') \<and> same_frame s s'
     \<and> (\<exists>n. invoked s' = invoked s @ replicate n text)
     \<and> ((v = JNull \<and> cache s' = cache s)
        \<or> (map_of (cache s) text = Some v \<and> cache s' = cache s)
        \<or> (truthy v \<and> (\<exists>n. translate E n text = Returns v)
            \<and> cache s' = AList.update text v (cache s)))"
proof (cases "text = [] \<or> strip text = []")
  case True
  then show ?thesis
    by (auto simp: translate_text_def same_frame_def intro: exI [of _ 0])
next
  case False
  show ?thesis
  proof (cases "map_of (cache s) text")
    case (Some v)
    with False show ?thesis
      by (auto simp: translate_text_def same_frame_def intro: exI [of _ 0])
  next
    case None
    from retry_loop_run [OF assms(2), of "text" "emit Construct s"]
    obtain v s' n where
      "retry_loop E text retries base [0..retries - 1] (emit Construct s) = (Inr v, s')"
      "same_frame (emit Construct s) s'"
      "invoked s' = invoked (emit Construct s) @ replicate n text"
      "(v = JNull \<and> cache s' = cache (emit Construct s))
        \<or> (truthy v \<and> (\<exists>n. translate E n text = Returns v)
            \<and> cache s' = AList.update text v (cache (emit Construct s)))"
      by blast
    with None False assms(1) show ?thesis
      by (auto simp: translate_text_def same_frame_def)
  qed
qed

lemma dict_get_update_other [simp]:
  "k \<noteq> k' \<Longrightarrow> dict_get (AList.update k' v kvs) k = dict_get kvs k"
  by (simp add: dict_get_def update_conv')

lemma backoff_default:
  assumes "backoff_ok E 1 4"
  shows "\<forall>a\<in>set [0..5 - 1]. a < 5 - 1 \<longrightarrow> a < 1024 \<and> sleep_ok E (1 * 2 ^ nat a)"
proof (intro ballI impI)
  fix a :: int assume "a \<in> set [0..5 - 1]" and "a < 5 - 1"
  then have "nat a < 4" by simp
  with assms have "nat a < 1024 \<and> sleep_ok E (1 * 2 ^ nat a)"
    unfolding backoff_ok_def by blast
  with \<open>a < 5 - 1\<close> show "a < 1024 \<and> sleep_ok E (1 * 2 ^ nat a)" by simp
qed

lemma translate_field_run:
  assumes "\<forall>n. construct E n = None" and "text_field (dict_get kvs src)"
    and "backoff_ok E 1 4"
  shows "\<exists>kvs' s'. translate_field E src dst kvs s = (Inr kvs', s') \<and> same_frame s s'
     \<and> vi_step dst kvs kvs'
     \<and> (\<exists>ws. invoked s' = invoked s @ ws \<and> (\<forall>w\<in>set ws. JStr w = dict_get kvs src))"
proof (cases "truthy (dict_get kvs src)")
  case False
  then show ?thesis
    by (auto simp: translate_field_def vi_step_def same_frame_def)
next
  case True
  with assms(2) obtain t where t: "dict_get kvs src = JStr t"
    by (auto simp: text_field_def split: json.splits)
  from translate_text_run [OF assms(1) backoff_default [OF assms(3)], of t s] obtain v s' n where
    "translate_text E t 5 1 s = (Inr v, s')" "same_frame s s'"
    "invoked s' = invoked s @ replicate n t"
    by auto
  with True t show ?thesis
    by (auto simp: translate_field_def and_then_def vi_step_def)
qed

lemma write_record_run:
  "\<exists>s'. write_record E cp kvs s = (Inr (), s') \<and> out s' = out s @ [line_of E kvs]
     \<and> written s' = written s + 1 \<and> total_read s' = total_read s \<and> cache s' = cache s
     \<and> invoked s' = invoked s"
proof -
  let ?s1 = "s\<lparr>out := out s @ [dumps E (JObj kvs) @ ''\<newline>''], written := written s + 1\<rparr>"
  obtain s2 where s2: "save_cache E cp ?s1 = (Inr (), s2)" "quiet ?s1 s2"
    using save_cache_returns [of E cp ?s1] save_cache_quiet [of ?s1 E cp]
    by (cases "save_cache E cp ?s1") auto
  show ?thesis
    using s2 by (auto simp: write_record_def Let_def and_then_def line_of_def quiet_def)
qed

lemma should_skip_eq:
  "well_typed resume (JObj kvs) \<Longrightarrow>
   should_skip resume ids (dict_get kvs ''mesh_id'') = Inr (skipped resume ids (JObj kvs))"
  by (auto simp: should_skip_def well_typed_def skipped_def already_written_def
      split: option.splits)

lemma handle_record_skipped:
  "well_typed resume (JObj kvs) \<Longrightarrow> skipped resume ids (JObj kvs)
   \<Longrightarrow> handle_record E cp delay resume ids (JObj kvs) s = (Inr (), s)"
  by (simp add: handle_record_def should_skip_eq)

lemma handle_record_run:
  assumes "\<forall>n. construct E n = None" and "sleep_ok E delay" and bo: "backoff_ok E 1 4"
    and wt: "well_typed resume (JObj kvs)"
    and ns: "\<not> skipped resume ids (JObj kvs)"
  shows "\<exists>s' kvs'. handle_record E cp delay resume ids (JObj kvs) s = (Inr (), s')
     \<and> out s' = out s @ [line_of E kvs'] \<and> translation_of (JObj kvs) kvs'
     \<and> total_read s' = total_read s \<and> written s' = written s + 1
     \<and> (\<exists>ws. invoked s' = invoked s @ ws \<and> set ws \<subseteq> field_texts (JObj kvs))"
proof -
  from wt have tf: "text_field (dict_get kvs ''term_en'')" "text_field (dict_get kvs ''definition'')"
    by (auto simp: well_typed_def)
  from translate_field_run [OF assms(1) tf(1) bo, of "''term_vi''" s]
  obtain kvs1 s1 ws1 where 1: "translate_field E ''term_en'' ''term_vi'' kvs s = (Inr kvs1, s1)"
    "same_frame s s1" "vi_step ''term_vi'' kvs kvs1" "invoked s1 = invoked s @ ws1"
    "\<forall>w\<in>set ws1. JStr w = dict_get kvs ''term_en''"
    by blast
  let ?s2 = "emit (Sleep delay) s1"
  have def1: "dict_get kvs1 ''definition'' = dict_get kvs ''definition''"
    using 1(3) by (auto simp: vi_step_def)
  with tf(2) have "text_field (dict_get kvs1 ''definition'')" by simp
  from translate_field_run [OF assms(1) this bo, of "''definition_vi''" ?s2]
  obtain kvs2 s3 ws2 where 3: "translate_field E ''definition'' ''definition_vi'' kvs1 ?s2 = (Inr kvs2, s3)"
    "same_frame ?s2 s3" "vi_step ''definition_vi'' kvs1 kvs2" "invoked s3 = invoked ?s2 @ ws2"
    "\<forall>w\<in>set ws2. JStr w = dict_get kvs1 ''definition''"
    by blast
  let ?s4 = "emit (Sleep delay) s3"
  from write_record_run [of E cp kvs2 ?s4]
  obtain s5 where 5: "write_record E cp kvs2 ?s4 = (Inr (), s5)" "out s5 = out ?s4 @ [line_of E kvs2]"
    "written s5 = written ?s4 + 1" "total_read s5 = total_read ?s4" "invoked s5 = invoked ?s4"
    by blast
  have run: "handle_record E cp delay resume ids (JObj kvs) s = (Inr (), s5)"
    using ns 1(1) 3(1) 5(1) assms(2)
    by (simp add: handle_record_def should_skip_eq [OF wt] and_then_def py_sleep_ok)
  have tr: "translation_of (JObj kvs) kvs2"
    using 1(3) 3(3) by (auto simp: translation_of_def vi_step_def)
  have inv: "invoked s5 = invoked s @ (ws1 @ ws2)" "set (ws1 @ ws2) \<subseteq> field_texts (JObj kvs)"
    using 1(4,5) 3(4,5) 5(5) def1 by (auto simp: field_texts_def)
  show ?thesis
    using run tr inv 5(2-4) 1(2) 3(2)
    by (intro exI [of _ s5] exI [of _ kvs2]) (auto simp: same_frame_def)
qed

lemma well_typed_dict: "well_typed resume obj \<Longrightarrow> \<exists>kvs. obj = JObj kvs"
  by (cases obj) (auto simp: well_typed_def)

lemma texts_loop_run:
  assumes "\<forall>n. construct E n = None" and "sleep_ok E delay" and "backoff_ok E 1 4"
    and "\<forall>obj\<in>set (List.map_filter (loads E) ts). well_typed resume obj"
  shows "\<exists>s' new. texts_loop E cp delay resume ids ts s = (Inr (), s')
     \<and> out s' = out s @ map (line_of E) new
     \<and> list_all2 translation_of
          (filter (\<lambda>obj. \<not> skipped resume ids obj) (List.map_filter (loads E) ts)) new
     \<and> total_read s' = total_read s + int (length (List.map_filter (loads E) ts))
     \<and> written s' = written s + int (length new)
     \<and> (\<exists>ws. invoked s' = invoked s @ ws
          \<and> set ws \<subseteq> (\<Union>obj\<in>{obj \<in> set (List.map_filter (loads E) ts). \<not> skipped resume ids obj}.
                         field_texts obj))"
  using assms(4)
proof (induction ts arbitrary: s)
  case Nil
  show ?case by (simp add: map_filter_simps)
next
  case (Cons t ts)
  let ?objs = "List.map_filter (loads E) ts"
  let ?keep = "\<lambda>obj. \<not> skipped resume ids obj"
  have wt_rest: "\<forall>obj\<in>set ?objs. well_typed resume obj"
    using Cons.prems by (auto simp: map_filter_simps split: option.splits)
  note IH = Cons.IH [OF wt_rest]
  show ?case
  proof (cases "loads E t")
    case None
    from IH [of "emit (Print ParseError) s"] obtain s' new ws where
      "texts_loop E cp delay resume ids ts (emit (Print ParseError) s) = (Inr (), s')"
      "out s' = out (emit (Print ParseError) s) @ map (line_of E) new"
      "list_all2 translation_of (filter ?keep ?objs) new"
      "total_read s' = total_read (emit (Print ParseError) s) + int (length ?objs)"
      "written s' = written (emit (Print ParseError) s) + int (length new)"
      "invoked s' = invoked (emit (Print ParseError) s) @ ws"
      "set ws \<subseteq> (\<Union>obj\<in>{obj \<in> set ?objs. ?keep obj}. field_texts obj)"
      by blast
    with None show ?thesis
      by (intro exI [of _ s'] exI [of _ new])
        (auto simp: on_text_def and_then_def map_filter_simps)
  next
    case (Some obj)
    then have "well_typed resume obj"
      using Cons.prems by (auto simp: map_filter_simps)
    then obtain kvs where obj: "obj = JObj kvs" and wt: "well_typed resume (JObj kvs)"
      using well_typed_dict by blast
    let ?s0 = "s\<lparr>total_read := total_read s + 1\<rparr>"
    show ?thesis
    proof (cases "skipped resume ids (JObj kvs)")
      case True
      from IH [of ?s0] obtain s' new ws where
        "texts_loop E cp delay resume ids ts ?s0 = (Inr (), s')"
        "out s' = out ?s0 @ map (line_of E) new"
        "list_all2 translation_of (filter ?keep ?objs) new"
        "total_read s' = total_read ?s0 + int (length ?objs)"
        "written s' = written ?s0 + int (length new)"
        "invoked s' = invoked ?s0 @ ws"
        "set ws \<subseteq> (\<Union>obj\<in>{obj \<in> set ?objs. ?keep obj}. field_texts obj)"
        by blast
      with Some obj True handle_record_skipped [OF wt True, of E cp delay ?s0] show ?thesis
        by (intro exI [of _ s'] exI [of _ new])
          (auto simp: on_text_def and_then_def map_filter_simps)
    next
      case False
      from handle_record_run [OF assms(1-3) wt False, of cp ?s0]
      obtain s1 kvs' ws1 where h:
        "handle_record E cp delay resume ids (JObj kvs) ?s0 = (Inr (), s1)"
        "out s1 = out ?s0 @ [line_of E kvs']" "translation_of (JObj kvs) kvs'"
        "total_read s1 = total_read ?s0" "written s1 = written ?s0 + 1"
        "invoked s1 = invoked ?s0 @ ws1" "set ws1 \<subseteq> field_texts (JObj kvs)"
        by blast
      from IH [of s1] obtain s' new ws where r:
        "texts_loop E cp delay resume ids ts s1 = (Inr (), s')"
        "out s' = out s1 @ map (line_of E) new"
        "list_all2 translation_of (filter ?keep ?objs) new"
        "total_read s' = total_read s1 + int (length ?objs)"
        "written s' = written s1 + int (length new)"
        "invoked s' = invoked s1 @ ws"
        "set ws \<subseteq> (\<Union>obj\<in>{obj \<in> set ?objs. ?keep obj}. field_texts obj)"
        by blast
      have inv: "invoked s' = invoked s @ (ws1 @ ws)"
        using h(6) r(6) by simp
      have sub: "set (ws1 @ ws) \<subseteq> (\<Union>obj\<in>{obj \<in> set (List.map_filter (loads E) (t # ts)). ?keep obj}.
          field_texts obj)"
        using h(7) r(7) Some obj False by (auto simp: map_filter_simps)
      show ?thesis
        using Some obj False h(1-5) r(1-5) inv sub
        by (intro exI [of _ s'] exI [of _ "kvs' # new"])
          (auto simp: on_text_def and_then_def map_filter_simps simp del: set_append)
    qed
  qed
qed

lemma collect_ids_iff:
  "k \<in> collect_ids E lines \<longleftrightarrow> (\<exists>line\<in>set lines. line_id E line = Some k)"
proof -
  have "k \<in> fold (\<lambda>line ids. case line_id E line of Some k \<Rightarrow> insert k ids | None \<Rightarrow> ids) lines A
      \<longleftrightarrow> k \<in> A \<or> (\<exists>line\<in>set lines. line_id E line = Some k)" for A
    by (induction lines arbitrary: A) (auto split: option.splits)
  then show ?thesis by (simp add: collect_ids_def)
qed

lemma process_run:
  assumes "\<forall>n. construct E n = None" and "sleep_ok E delay" and "backoff_ok E 1 4"
    and "\<forall>obj\<in>set (read_objects E input). well_typed resume obj"
  shows "\<exists>s' new. process E input existing cp delay resume s = (Inr (), s')
     \<and> out s' = map (line_of E) new
     \<and> list_all2 translation_of
          (filter (\<lambda>obj. \<not> skipped resume (resume_set E resume existing) obj) (read_objects E input)) new
     \<and> total_read s' = int (length (read_objects E input))
     \<and> written s' = int (length new)
     \<and> (\<exists>ws. invoked s' = invoked s @ ws
          \<and> set ws \<subseteq> (\<Union>obj\<in>{obj \<in> set (read_objects E input).
                            \<not> skipped resume (resume_set E resume existing) obj}. field_texts obj))"
proof -
  let ?ids = "resume_set E resume existing"
  let ?s0 = "s\<lparr>out := [], written := 0, total_read := 0\<rparr>"
  let ?ts = "fst (scan_all input init_scanner)"
  from texts_loop_run [OF assms(1-3), of ?ts resume cp ?ids ?s0] assms(4)
  obtain s1 new ws where t:
    "texts_loop E cp delay resume ?ids ?ts ?s0 = (Inr (), s1)"
    "out s1 = out ?s0 @ map (line_of E) new"
    "list_all2 translation_of (filter (\<lambda>obj. \<not> skipped resume ?ids obj) (read_objects E input)) new"
    "total_read s1 = total_read ?s0 + int (length (read_objects E input))"
    "written s1 = written ?s0 + int (length new)"
    "invoked s1 = invoked ?s0 @ ws"
    "set ws \<subseteq> (\<Union>obj\<in>{obj \<in> set (read_objects E input). \<not> skipped resume ?ids obj}. field_texts obj)"
    unfolding read_objects_def by blast
  obtain sc1 where loop: "read_loop E cp delay resume ?ids input init_scanner ?s0 = (Inr (), sc1, s1)"
    using chars_loop_texts [of E cp delay resume ?ids input init_scanner ?s0] t(1)
    by (cases "chars_loop E cp delay resume ?ids input init_scanner ?s0")
      (auto simp: read_loop_chars)
  obtain s2 where save: "save_cache E cp s1 = (Inr (), s2)" "quiet s1 s2"
    using save_cache_returns [of E cp s1] save_cache_quiet [of s1 E cp]
    by (cases "save_cache E cp s1") auto
  have "process E input existing cp delay resume s = (Inr (), s2)"
    using loop save(1) by (simp add: process_def Let_def)
  then show ?thesis
    using t(2-7) save(2)
    by (intro exI [of _ s2] exI [of _ new]) (auto simp: quiet_def)
qed


lemma process_texts:
  "process E input existing cp delay resume s =
     (case texts_loop E cp delay resume (resume_set E resume existing)
             (fst (scan_all input init_scanner)) (s\<lparr>out := [], written := 0, total_read := 0\<rparr>) of
        (Inl x, s') \<Rightarrow> (Inl x, s')
      | (Inr u, s') \<Rightarrow> save_cache E cp s')"
proof -
  let ?ids = "resume_set E resume existing"
  let ?s0 = "s\<lparr>out := [], written := 0, total_read := 0\<rparr>"
  obtain res sc s1 where loop: "chars_loop E cp delay resume ?ids input init_scanner ?s0 = (res, sc, s1)"
    by (cases "chars_loop E cp delay resume ?ids input init_scanner ?s0") auto
  with chars_loop_texts [of E cp delay resume ?ids input init_scanner ?s0]
  have "texts_loop E cp delay resume ?ids (fst (scan_all input init_scanner)) ?s0 = (res, s1)"
    by (cases "texts_loop E cp delay resume ?ids (fst (scan_all input init_scanner)) ?s0") auto
  with loop show ?thesis
    by (cases res) (simp_all add: process_def Let_def read_loop_chars)
qed

lemma and_then_eval [simp]:
  "and_then (Inl x, s) f = (Inl x, s)"
  "and_then (Inr v, s) f = f v s"
  by (simp_all add: and_then_def)

lemma and_then_cong: "r = r' \<Longrightarrow> and_then r f = and_then r' f"
  by simp

lemma translation_of_mesh_id:
  "translation_of (JObj kvs) kvs' \<Longrightarrow> dict_get kvs' ''mesh_id'' = dict_get kvs ''mesh_id''"
  by (auto simp: translation_of_def vi_step_def)

lemma skipped_dict:
  "skipped resume ids (JObj kvs) \<longleftrightarrow> resume \<and> already_written ids (dict_get kvs ''mesh_id'')"
  by (simp add: skipped_def)

lemma resume_set_lines [simp]: "resume_set E True (Some lines) = collect_ids E lines"
  by (simp add: resume_set_def)

lemma translate_text_blank_state:
  "blank text \<Longrightarrow> translate_text E text retries base s = (Inr JNull, s)"
  by (auto simp: translate_text_def blank_iff)

lemma retry_loop_all_raise:
  assumes "\<forall>n. \<exists>e. translate E n text = Raises e" and "backoff_ok E base (nat (retries - 1))"
    and "0 \<le> a"
  shows "\<exists>s'. retry_loop E text retries base [a..retries - 1] s = (Inr JNull, s')
     \<and> invoked s' = invoked s @ replicate (nat (retries - a)) text
     \<and> cache s' = cache s \<and> same_frame s s'"
proof (cases "a \<le> retries - 1")
  case False
  then show ?thesis by (simp add: same_frame_def)
next
  case True
  define n where "n = nat (retries - 1 - a)"
  have n: "a + int n = retries - 1" using True by (simp add: n_def)
  have fails: "\<forall>k<n. \<exists>e. translate E (length (invoked s) + k) text = Raises e"
    using assms(1) by simp
  have ok: "\<forall>k<n. nat a + k < 1024 \<and> sleep_ok E (base * 2 ^ (nat a + k))"
  proof (intro allI impI)
    fix k assume "k < n"
    then have "nat a + k < nat (retries - 1)" using assms(3) True by (simp add: n_def)
    with assms(2) show "nat a + k < 1024 \<and> sleep_ok E (base * 2 ^ (nat a + k))"
      unfolding backoff_ok_def by blast
  qed
  from retry_loop_raises [OF ok fails assms(3), of retries] n
  obtain s1 where s1:
    "retry_loop E text retries base [a..retries - 1] s
       = retry_loop E text retries base [retries - 1..retries - 1] s1"
    "invoked s1 = invoked s @ replicate n text" "cache s1 = cache s" "same_frame s s1"
    by auto
  obtain e where e: "translate E (length (invoked s1)) text = Raises e"
    using assms(1) by blast
  have last: "retry_loop E text retries base [retries - 1..retries - 1] s1
      = (Inr JNull, emit (Print (Failed retries (take 40 text))) (emit (Invoke text) s1))"
    using e by simp
  have "nat (retries - a) = Suc n" using True by (simp add: n_def)
  with s1 last show ?thesis
    by (auto simp: same_frame_def replicate_append_same)
qed

lemma translate_text_exhausted:
  assumes "\<forall>n. \<exists>e. translate E n text = Raises e" and "construct E (constructions s) = None"
    and "backoff_ok E base (K - 1)" and "\<not> blank text" and "map_of (cache s) text = None"
  shows "\<exists>s'. translate_text E text (int K) base s = (Inr JNull, s')
     \<and> invoked s' = invoked s @ replicate K text \<and> cache s' = cache s \<and> same_frame s s'"
proof -
  have "backoff_ok E base (nat (int K - 1))" using assms(3) by (simp add: nat_diff_distrib')
  from retry_loop_all_raise [OF assms(1) this, of 0 "emit Construct s"]
  obtain s' where "retry_loop E text (int K) base [0..int K - 1] (emit Construct s) = (Inr JNull, s')"
    "invoked s' = invoked (emit Construct s) @ replicate (nat (int K - 0)) text"
    "cache s' = cache (emit Construct s)" "same_frame (emit Construct s) s'"
    by auto
  with assms(2,4,5) show ?thesis
    by (auto simp: translate_text_def blank_iff same_frame_def)
qed

lemma translate_field_fails:
  assumes "\<forall>n t. \<exists>e. translate E n t = Raises e" and "\<forall>n. construct E n = None"
    and "text_field (dict_get kvs src)"
    and "\<forall>t. JStr t = dict_get kvs src \<longrightarrow> map_of (cache s) t = None"
    and "backoff_ok E 1 4"
  shows "\<exists>s'. translate_field E src dst kvs s = (Inr kvs, s') \<and> cache s' = cache s
     \<and> same_frame s s'"
proof (cases "truthy (dict_get kvs src)")
  case False
  then show ?thesis by (simp add: translate_field_def same_frame_def)
next
  case True
  with assms(3) obtain t where t: "dict_get kvs src = JStr t"
    by (auto simp: text_field_def split: json.splits)
  have "\<exists>s'. translate_text E t 5 1 s = (Inr JNull, s') \<and> cache s' = cache s \<and> same_frame s s'"
  proof (cases "blank t")
    case True
    then show ?thesis by (simp add: translate_text_blank_state same_frame_def)
  next
    case False
    have "\<forall>n. \<exists>e. translate E n t = Raises e" using assms(1) by simp
    moreover have "map_of (cache s) t = None" using assms(4) t by simp
    ultimately show ?thesis
      using translate_text_exhausted [of E t s 1 5] assms(2,5) False by auto
  qed
  with True t show ?thesis
    by (auto simp: translate_field_def)
qed

lemma field_texts_iff:
  "t \<in> field_texts (JObj kvs) \<longleftrightarrow> JStr t = dict_get kvs ''term_en'' \<or> JStr t = dict_get kvs ''definition''"
  by (simp add: field_texts_def)

lemma handle_record_fails:
  assumes "\<forall>n t. \<exists>e. translate E n t = Raises e" and "\<forall>n. construct E n = None"
    and "sleep_ok E delay" and bo: "backoff_ok E 1 4" and wt: "well_typed resume (JObj kvs)"
    and ns: "\<not> skipped resume ids (JObj kvs)"
    and unc: "\<forall>t\<in>field_texts (JObj kvs). map_of (cache s) t = None"
  shows "\<exists>s'. handle_record E cp delay resume ids (JObj kvs) s = (Inr (), s')
     \<and> out s' = out s @ [line_of E kvs] \<and> cache s' = cache s
     \<and> total_read s' = total_read s"
proof -
  from wt have tf: "text_field (dict_get kvs ''term_en'')" "text_field (dict_get kvs ''definition'')"
    by (auto simp: well_typed_def)
  have u1: "\<forall>t. JStr t = dict_get kvs ''term_en'' \<longrightarrow> map_of (cache s) t = None"
    using unc by (simp add: field_texts_iff)
  from translate_field_fails [OF assms(1,2) tf(1) u1 bo, of "''term_vi''"]
  obtain s1 where 1: "translate_field E ''term_en'' ''term_vi'' kvs s = (Inr kvs, s1)"
    "cache s1 = cache s" "same_frame s s1"
    by blast
  let ?s2 = "emit (Sleep delay) s1"
  have u2: "\<forall>t. JStr t = dict_get kvs ''definition'' \<longrightarrow> map_of (cache ?s2) t = None"
    using unc 1(2) by (simp add: field_texts_iff)
  from translate_field_fails [OF assms(1,2) tf(2) u2 bo, of "''definition_vi''"]
  obtain s3 where 3: "translate_field E ''definition'' ''definition_vi'' kvs ?s2 = (Inr kvs, s3)"
    "cache s3 = cache ?s2" "same_frame ?s2 s3"
    by blast
  let ?s4 = "emit (Sleep delay) s3"
  from write_record_run [of E cp kvs ?s4]
  obtain s5 where 5: "write_record E cp kvs ?s4 = (Inr (), s5)" "out s5 = out ?s4 @ [line_of E kvs]"
    "total_read s5 = total_read ?s4" "cache s5 = cache ?s4"
    by blast
  have "handle_record E cp delay resume ids (JObj kvs) s = (Inr (), s5)"
    using ns 1(1) 3(1) 5(1) assms(3)
    by (simp add: handle_record_def should_skip_eq [OF wt] py_sleep_ok)
  then show ?thesis
    using 1(2,3) 3(2,3) 5(2-4) by (auto simp: same_frame_def)
qed

lemma texts_loop_fails:
  assumes "\<forall>n t. \<exists>e. translate E n t = Raises e" and "\<forall>n. construct E n = None"
    and "sleep_ok E delay" and "backoff_ok E 1 4"
    and "List.map_filter (loads E) ts = map JObj recs"
    and "\<forall>kvs\<in>set recs. well_typed resume (JObj kvs)"
    and "\<forall>kvs\<in>set recs. \<forall>t\<in>field_texts (JObj kvs). map_of (cache s) t = None"
  shows "\<exists>s'. texts_loop E cp delay resume ids ts s = (Inr (), s')
     \<and> out s' = out s @ map (line_of E) (filter (\<lambda>kvs. \<not> skipped resume ids (JObj kvs)) recs)
     \<and> cache s' = cache s"
  using assms(5-7)
proof (induction ts arbitrary: s recs)
  case Nil
  then show ?case by (simp add: map_filter_simps)
next
  case (Cons t ts)
  show ?case
  proof (cases "loads E t")
    case None
    with Cons.prems have "List.map_filter (loads E) ts = map JObj recs"
      by (simp add: map_filter_simps)
    from Cons.IH [OF this Cons.prems(2), of "emit (Print ParseError) s"] Cons.prems(3) None
    show ?thesis
      by (auto simp: on_text_def)
  next
    case (Some obj)
    with Cons.prems(1) obtain kvs recs' where recs: "recs = kvs # recs'" "obj = JObj kvs"
      "List.map_filter (loads E) ts = map JObj recs'"
      by (cases recs) (auto simp: map_filter_simps)
    let ?s0 = "s\<lparr>total_read := total_read s + 1\<rparr>"
    have wt: "well_typed resume (JObj kvs)" and wt': "\<forall>kvs\<in>set recs'. well_typed resume (JObj kvs)"
      using Cons.prems(2) recs(1) by auto
    have unc: "\<forall>t\<in>field_texts (JObj kvs). map_of (cache ?s0) t = None"
      using Cons.prems(3) recs(1) by auto
    show ?thesis
    proof (cases "skipped resume ids (JObj kvs)")
      case True
      have unc': "\<forall>kvs\<in>set recs'. \<forall>t\<in>field_texts (JObj kvs). map_of (cache ?s0) t = None"
        using Cons.prems(3) recs(1) by auto
      from Cons.IH [OF recs(3) wt' unc'] True Some recs(1,2)
        handle_record_skipped [OF wt True, of E cp delay ?s0]
      show ?thesis
        by (auto simp: on_text_def)
    next
      case False
      from handle_record_fails [OF assms(1-4) wt False unc, of cp]
      obtain s1 where h: "handle_record E cp delay resume ids (JObj kvs) ?s0 = (Inr (), s1)"
        "out s1 = out ?s0 @ [line_of E kvs]" "cache s1 = cache ?s0"
        by blast
      have unc': "\<forall>kvs\<in>set recs'. \<forall>t\<in>field_texts (JObj kvs). map_of (cache s1) t = None"
        using Cons.prems(3) recs(1) h(3) by auto
      from Cons.IH [OF recs(3) wt' unc'] False Some recs(1,2) h
      show ?thesis
        by (auto simp: on_text_def)
    qed
  qed
qed

lemma list_all2_member:
  "list_all2 P xs ys \<Longrightarrow> x \<in> set xs \<Longrightarrow> \<exists>y\<in>set ys. P x y"
  by (induction rule: list_all2_induct) auto

lemma and_then_Inr:
  "and_then r f = (Inr v, s') \<Longrightarrow> \<exists>u s1. r = (Inr u, s1) \<and> f u s1 = (Inr v, s')"
  by (cases r) (auto simp: and_then_def split: sum.splits)

lemma retry_loop_value:
  "retry_loop E text retries base as s = (Inr v, s') \<Longrightarrow>
     (v = JNull \<and> cache s' = cache s)
     \<or> (truthy v \<and> (\<exists>n. translate E n text = Returns v) \<and> cache s' = AList.update text v (cache s))"
proof (induction as arbitrary: s)
  case Nil
  then show ?case by auto
next
  case (Cons a as)
  show ?case
  proof (cases "translate E (length (invoked s)) text")
    case (Returns w)
    with Cons.prems Cons.IH [of "emit (Invoke text) s"] show ?thesis
      by (auto split: if_splits)
  next
    case (Raises e)
    show ?thesis
    proof (cases "a < retries - 1")
      case False
      with Raises Cons.prems show ?thesis by auto
    next
      case True
      let ?d = "base * 2 ^ nat a"
      let ?s1 = "emit (Print (Retry (a + 1) retries ?d (take 40 e))) (emit (Invoke text) s)"
      from Raises True Cons.prems
      have "and_then (py_sleep E ?d ?s1) (\<lambda>_. retry_loop E text retries base as) = (Inr v, s')"
        by (simp split: if_splits)
      from and_then_Inr [OF this] obtain u s2 where
        "py_sleep E ?d ?s1 = (Inr u, s2)" "retry_loop E text retries base as s2 = (Inr v, s')"
        by blast
      with Cons.IH [of s2] show ?thesis
        by (auto simp: py_sleep_def split: if_splits)
    qed
  qed
qed

lemma translate_text_value:
  "translate_text E text retries base s = (Inr v, s') \<Longrightarrow>
     (v = JNull \<and> cache s' = cache s)
     \<or> (map_of (cache s) text = Some v \<and> cache s' = cache s)
     \<or> (truthy v \<and> (\<exists>n. translate E n text = Returns v) \<and> cache s' = AList.update text v (cache s))"
  by (auto simp: translate_text_def split: if_splits option.splits dest!: retry_loop_value)

lemma truthy_str_good: "truthy v \<Longrightarrow> str_or_none v \<Longrightarrow> good_value v"
  by (cases v) (auto simp: str_or_none_def good_value_def)

lemma good_value_truthy: "good_value v \<Longrightarrow> truthy v \<Longrightarrow> \<exists>r. r \<noteq> [] \<and> v = JStr r"
  by (cases v) (auto simp: good_value_def)

lemma translate_text_good:
  assumes "\<forall>n t v. translate E n t = Returns v \<longrightarrow> str_or_none v" and "good_cache (cache s)"
    and "translate_text E text retries base s = (Inr v, s')"
  shows "good_value v \<and> good_cache (cache s')"
proof -
  from translate_text_value [OF assms(3)]
  consider "v = JNull" "cache s' = cache s"
    | "map_of (cache s) text = Some v" "cache s' = cache s"
    | n where "truthy v" "translate E n text = Returns v" "cache s' = AList.update text v (cache s)"
    by blast
  then show ?thesis
  proof cases
    case 1
    with assms(2) show ?thesis by (simp add: good_value_def)
  next
    case 2
    with assms(2) show ?thesis by (auto simp: good_cache_def)
  next
    case 3
    with assms(1) have "good_value v" by (blast intro: truthy_str_good)
    with 3(3) assms(2) show ?thesis
      by (auto simp: good_cache_def update_conv')
  qed
qed

lemma translate_field_good:
  assumes "\<forall>n t v. translate E n t = Returns v \<longrightarrow> str_or_none v" and "good_cache (cache s)"
    and "translate_field E src dst kvs s = (Inr kvs', s')"
  shows "good_cache (cache s') \<and> same_frame s s'
     \<and> (kvs' = kvs \<or> (\<exists>r. r \<noteq> [] \<and> kvs' = AList.update dst (JStr r) kvs))"
proof (cases "truthy (dict_get kvs src)")
  case False
  with assms(2,3) show ?thesis by (simp add: translate_field_def same_frame_def)
next
  case True
  with assms(3) obtain t where t: "dict_get kvs src = JStr t"
    by (cases "dict_get kvs src") (auto simp: translate_field_def)
  with True assms(3)
  have "and_then (translate_text E t 5 1 s)
      (\<lambda>r s'. (Inr (if truthy r then AList.update dst r kvs else kvs), s')) = (Inr kvs', s')"
    by (simp add: translate_field_def)
  from and_then_Inr [OF this] obtain r where r: "translate_text E t 5 1 s = (Inr r, s')"
    "kvs' = (if truthy r then AList.update dst r kvs else kvs)"
    by auto
  from translate_text_good [OF assms(1,2) r(1)] have g: "good_value r" "good_cache (cache s')"
    by simp_all
  from translate_text_frame [OF r(1)] have "same_frame s s'" .
  with g r(2) good_value_truthy [OF g(1)] show ?thesis
    by auto
qed

lemma py_sleep_Inr: "py_sleep E d s = (Inr u, s') \<Longrightarrow> s' = emit (Sleep d) s"
  by (auto simp: py_sleep_def split: if_splits)

lemma backoff_okI:
  assumes "0 \<le> base" and "n \<le> 1024" and "base * 2 ^ (n - 1) \<le> max_sleep E"
  shows "backoff_ok E base n"
  unfolding backoff_ok_def sleep_ok_def
proof (intro allI impI conjI)
  fix i assume i: "i < n"
  show "i < 1024" using i assms(2) by simp
  show "0 \<le> base * 2 ^ i" using assms(1) by simp
  have "(2::real) ^ i \<le> 2 ^ (n - 1)"
    using i by (intro power_increasing) simp_all
  then have "base * 2 ^ i \<le> base * 2 ^ (n - 1)"
    using assms(1) by (rule mult_left_mono)
  with assms(3) show "base * 2 ^ i \<le> max_sleep E" by simp
qed

lemma default_backoff: "sleep_ok E 8 \<Longrightarrow> backoff_ok E 1 4"
  by (rule backoff_okI) (simp_all add: sleep_ok_def)

lemma names_id_iff:
  "names_id E m line \<longleftrightarrow> (\<exists>k. line_id E line = Some k \<and> py_key m = Some k)"
  by (auto simp: names_id_def line_id_def split: option.splits json.splits)

lemma already_written_collect:
  "already_written (collect_ids E lines) m \<longleftrightarrow> written_before E lines m"
  unfolding already_written_def written_before_def collect_ids_iff list_ex_iff
  by (cases "py_key m") (auto simp: names_id_iff)

lemma backoff_sorted:
  assumes "backoff_ok E base N"
  shows "sorted_wrt (<) (map (\<lambda>i. base * 2 ^ i) [0..<N]) \<longleftrightarrow> 0 < base \<or> N \<le> 1"
proof (cases "0 < base")
  case True
  then show ?thesis
    by (auto simp: sorted_wrt_map sorted_wrt_iff_nth_less)
next
  case False
  show ?thesis
  proof (cases "N \<le> 1")
    case True
    then have "N = 0 \<or> N = 1" by auto
    then show ?thesis by auto
  next
    case big: False
    then have "0 < N" by simp
    with assms have "0 \<le> base * 2 ^ 0"
      unfolding backoff_ok_def sleep_ok_def by blast
    with False have base: "base = 0" by simp
    have "\<not> sorted_wrt (<) (map (\<lambda>i. base * 2 ^ i) [0..<N])"
    proof
      assume "sorted_wrt (<) (map (\<lambda>i. base * 2 ^ i) [0..<N])"
      then have "\<forall>i j. i < j \<longrightarrow> j < N \<longrightarrow> base * 2 ^ i < base * 2 ^ j"
        by (simp add: sorted_wrt_map sorted_wrt_iff_nth_less)
      then have "base * 2 ^ 0 < base * 2 ^ 1" using big by (metis not_le_imp_less zero_less_one)
      with base show False by simp
    qed
    with False big show ?thesis by simp
  qed
qed

section \<open>The properties\<close>

subsection \<open>The streaming reader\<close>

text \<open>
  Claim C1, as the code has it. The scanner counts every brace, also one inside a
  string. The input below is a JSON array of two objects; the string of the first holds
  a closing brace. The only text the reader hands to the decoder is the first object cut
  off at that brace, which does not decode, and the depth stays below one from there
  on: the reader yields neither object.
\<close>

theorem brace_in_string_counterexample:
  \<open>fst (scan_all ''[{"term_en": "a}"}, {"term_en": "b"}]'' init_scanner) = [''{"term_en": "a}'']
   \<and> loads (silent [(''{"term_en": "a}"}'', JObj [(''term_en'', JStr ''a}'')]),
                     (''{"term_en": "b"}'', JObj [(''term_en'', JStr ''b'')])])
        ''{"term_en": "a}'' = None
   \<and> read_objects (silent [(''{"term_en": "a}"}'', JObj [(''term_en'', JStr ''a}'')]),
                            (''{"term_en": "b"}'', JObj [(''term_en'', JStr ''b'')])])
        ''[{"term_en": "a}"}, {"term_en": "b"}]'' = []\<close>
  by (simp add: read_objects_def scan_all_step scan_char_eval init_scanner_def silent_def
      sample_env_def map_filter_simps)

text \<open>
  Claim C1, amended: for every input file that holds one top-level JSON array of
  objects none of whose strings contains a brace (so that all braces are structural:
  any text without \<^verbatim>\<open>[\<close>, the opening \<^verbatim>\<open>[\<close>, then object texts with properly nested
  braces, each followed by a separator without braces), the texts the reader decodes are
  exactly the object texts, each once and in array order; so it yields every object of
  the array, decoded, exactly once and in array order, and the loop of \<^verbatim>\<open>process\<close>, which
  reads the file in chunks of 65536 characters, handles these texts one after the
  other. Boundaries are found by the brace depth, and the accumulated text is empty
  again after the last object.
\<close>

theorem reader_yields_objects:
  assumes "CHR ''['' \<notin> set pre" and "brace_free sep0"
    and "\<forall>(t, sep)\<in>set items. object_text t \<and> brace_free sep"
    and "map (loads E) (map fst items) = map Some objs"
  shows "fst (scan_all (array_text pre sep0 items) init_scanner) = map fst items
    \<and> read_objects E (array_text pre sep0 items) = objs
    \<and> current (snd (scan_all (array_text pre sep0 items) init_scanner)) = []
    \<and> fst (read_loop E cache_path delay resume ids (array_text pre sep0 items) init_scanner s)
        = fst (texts_loop E cache_path delay resume ids (map fst items) s)
    \<and> snd (snd (read_loop E cache_path delay resume ids (array_text pre sep0 items) init_scanner s))
        = snd (texts_loop E cache_path delay resume ids (map fst items) s)"
proof -
  have scan: "scan_all (array_text pre sep0 items) init_scanner
      = (map fst items, init_scanner\<lparr>in_array := True\<rparr>)"
    using assms(1-3) by (rule scan_all_array)
  have "read_objects E (array_text pre sep0 items) = objs"
    using assms(4) by (simp add: read_objects_def scan map_filter_Some)
  moreover have "current (snd (scan_all (array_text pre sep0 items) init_scanner)) = []"
    unfolding scan by (simp add: init_scanner_def)
  ultimately show ?thesis
    using chars_loop_texts [of E cache_path delay resume ids "array_text pre sep0 items" init_scanner s]
    by (simp add: scan read_loop_chars)
qed

theorem reader_yields_objects_witness:
  \<open>array_text [] [] [(''{"a": 1}'', '', ''), (''{"b": {"c": 2}}'', '']'')]
     = ''[{"a": 1}, {"b": {"c": 2}}]''
   \<and> fst (scan_all ''[{"a": 1}, {"b": {"c": 2}}]'' init_scanner) = [''{"a": 1}'', ''{"b": {"c": 2}}'']
   \<and> read_objects (silent two_objects) ''[{"a": 1}, {"b": {"c": 2}}]''
       = [JObj [(''a'', JInt 1)], JObj [(''b'', JObj [(''c'', JInt 2)])]]\<close>
proof -
  have layout: \<open>array_text [] [] [(''{"a": 1}'', '', ''), (''{"b": {"c": 2}}'', '']'')]
     = ''[{"a": 1}, {"b": {"c": 2}}]''\<close>
    by (simp add: array_text_def)
  have o1: \<open>object_text ''{"a": 1}''\<close>
    unfolding object_text_def
    by (rule exI [of _ \<open>''"a": 1''\<close>]) (simp add: nested.plain brace_free_def)
  have inner: \<open>nested (''"b": '' @ (CHR ''{'' # ''"c": 2'' @ [CHR ''}'']))\<close>
    by (intro nested.juxta nested.braces nested.plain) (simp_all add: brace_free_def)
  have o2: \<open>object_text ''{"b": {"c": 2}}''\<close>
    unfolding object_text_def
    by (rule exI [of _ \<open>''"b": '' @ (CHR ''{'' # ''"c": 2'' @ [CHR ''}''])\<close>]) (use inner in simp)
  have items: \<open>\<forall>(t, sep)\<in>set [(''{"a": 1}'', '', ''), (''{"b": {"c": 2}}'', '']'')].
      object_text t \<and> brace_free sep\<close>
    using o1 o2 by (simp add: brace_free_def)
  have dec: \<open>map (loads (silent two_objects)) (map fst [(''{"a": 1}'', '', ''), (''{"b": {"c": 2}}'', '']'')])
      = map Some [JObj [(''a'', JInt 1)], JObj [(''b'', JObj [(''c'', JInt 2)])]]\<close>
    by (simp add: silent_def sample_env_def two_objects_def)
  have "CHR ''['' \<notin> set []" "brace_free []"
    by (simp_all add: brace_free_def)
  from reader_yields_objects [OF this items dec, of "[]" 0 False "{}" fresh]
  have \<open>fst (scan_all (array_text [] [] [(''{"a": 1}'', '', ''), (''{"b": {"c": 2}}'', '']'')])
          init_scanner) = map fst [(''{"a": 1}'', '', ''), (''{"b": {"c": 2}}'', '']'')]\<close>
    and \<open>read_objects (silent two_objects)
          (array_text [] [] [(''{"a": 1}'', '', ''), (''{"b": {"c": 2}}'', '']'')])
        = [JObj [(''a'', JInt 1)], JObj [(''b'', JObj [(''c'', JInt 2)])]]\<close>
    by blast+
  then show ?thesis
    unfolding layout by simp
qed

subsection \<open>Blank text\<close>

text \<open>
  Claim C8. For every empty or whitespace-only text, \<^verbatim>\<open>translate_text\<close> returns \<^verbatim>\<open>None\<close>
  at once: the result is a value and not an exception, and the state is unchanged, so
  the provider is neither constructed nor invoked, nothing is slept and the cache is
  as before, whatever the retry ceiling and the base delay.
\<close>

theorem translate_text_blank:
  assumes "blank text"
  shows "translate_text E text retries base_delay s = (Inr JNull, s)"
  using assms by (auto simp: translate_text_def blank_iff)

theorem translate_text_blank_witness:
  "blank [CHR 0x20, CHR 0x09, CHR 0x0A]
   \<and> translate_text (flaky 0 (JStr ''xin chao'')) [CHR 0x20, CHR 0x09, CHR 0x0A] 5 1 fresh
       = (Inr JNull, fresh)
   \<and> invoked fresh = [] \<and> sleeps fresh = []"
proof -
  have b: "blank [CHR 0x20, CHR 0x09, CHR 0x0A]"
    by (simp add: blank_def isspace_def)
  from translate_text_blank [OF b] b show ?thesis
    by (simp add: fresh_def invoked_def sleeps_def)
qed

subsection \<open>Cache hits\<close>

text \<open>
  Claim C4, as the code has it. The test for blank text (line 46) comes before the cache
  lookup (line 49), so a cached key of white space only is never looked up: for the
  text of one space with a cached value, the result is \<^verbatim>\<open>None\<close> and not the cached value.
\<close>

theorem whitespace_key_counterexample:
  "[CHR 0x20] \<noteq> []
   \<and> map_of (cache (fresh\<lparr>cache := [([CHR 0x20], JStr ''tim'')]\<rparr>)) [CHR 0x20] = Some (JStr ''tim'')
   \<and> translate_text (flaky 0 (JStr ''tim'')) [CHR 0x20] 5 1 (fresh\<lparr>cache := [([CHR 0x20], JStr ''tim'')]\<rparr>)
       = (Inr JNull, fresh\<lparr>cache := [([CHR 0x20], JStr ''tim'')]\<rparr>)"
  by (simp add: translate_text_def strip_def isspace_def)

text \<open>
  Claim C4, amended: for every text that is not blank (not empty and not white space
  only) whose key is in the cache, \<^verbatim>\<open>translate_text\<close> returns the cached value and leaves
  the state as it is, so the provider is not invoked; and after a call that returned a
  translation (a truthy value), a second call with the same text and the cache the
  first call left returns the same value with an unchanged state, whatever the
  provider would do.
\<close>

theorem translate_text_cache_hit:
  assumes "\<not> blank text"
  shows "(map_of (cache s) text = Some v \<longrightarrow> translate_text E text retries base_delay s = (Inr v, s))
    \<and> (translate_text E text retries base_delay s = (Inr v, s') \<and> truthy v
        \<longrightarrow> translate_text E' text retries' base_delay' s' = (Inr v, s'))"
  using assms translate_text_hit translate_text_truthy_cached by blast

theorem translate_text_cache_hit_witness:
  "\<not> blank ''heart''
   \<and> map_of (cache (fresh\<lparr>cache := [(''heart'', JStr ''tim'')]\<rparr>)) ''heart'' = Some (JStr ''tim'')
   \<and> translate_text (flaky 0 (JStr ''other'')) ''heart'' 5 1 (fresh\<lparr>cache := [(''heart'', JStr ''tim'')]\<rparr>)
       = (Inr (JStr ''tim''), fresh\<lparr>cache := [(''heart'', JStr ''tim'')]\<rparr>)
   \<and> translate_text (flaky 0 (JStr ''tim'')) ''heart'' 5 1 fresh
       = (Inr (JStr ''tim''),
          fresh\<lparr>cache := [(''heart'', JStr ''tim'')], trace := [Construct, Invoke ''heart'']\<rparr>)
   \<and> translate_text (flaky 9 JNull) ''heart'' 5 1
         (fresh\<lparr>cache := [(''heart'', JStr ''tim'')], trace := [Construct, Invoke ''heart'']\<rparr>)
       = (Inr (JStr ''tim''),
          fresh\<lparr>cache := [(''heart'', JStr ''tim'')], trace := [Construct, Invoke ''heart'']\<rparr>)"
proof -
  have nb: "\<not> blank ''heart''"
    by (simp add: blank_def isspace_def)
  have first: "translate_text (flaky 0 (JStr ''tim'')) ''heart'' 5 1 fresh
      = (Inr (JStr ''tim''),
         fresh\<lparr>cache := [(''heart'', JStr ''tim'')], trace := [Construct, Invoke ''heart'']\<rparr>)"
    using nb
    by (simp add: translate_text_def blank_iff flaky_def sample_env_def fresh_def
        constructions_def invoked_def emit_def upto_rec1)
  have hit: "map_of (cache (fresh\<lparr>cache := [(''heart'', JStr ''tim'')]\<rparr>)) ''heart'' = Some (JStr ''tim'')"
    by simp
  from translate_text_cache_hit [OF nb, of "fresh\<lparr>cache := [(''heart'', JStr ''tim'')]\<rparr>"
      "JStr ''tim''" "flaky 0 (JStr ''other'')" 5 1]
    translate_text_cache_hit [OF nb, of fresh "JStr ''tim''" "flaky 0 (JStr ''tim'')" 5 1 _
      "flaky 9 JNull" 5 1]
    nb first hit
  show ?thesis by simp
qed

subsection \<open>Retry with exponential backoff\<close>

text \<open>
  Claim C5, as the code has it. Three runs in which the provider fails \<open>N\<close> times and
  then succeeds, under the retry ceiling \<open>N + 1\<close>. With the base delay 0 the three
  sleeps are of 0 seconds each, so the durations do not increase. A provider that
  fails by returning \<^verbatim>\<open>None\<close> is called again at once (only the handler of line 60
  sleeps): the translation is returned after no sleep at all. And with a base delay
  that \<^verbatim>\<open>time.sleep\<close> refuses, the \<^verbatim>\<open>OverflowError\<close> of line 64, raised inside the
  handler, leaves \<^verbatim>\<open>translate_text\<close>: no translation is returned.
\<close>

theorem backoff_counterexample:
  "translate_text (flaky 3 (JStr ''tim'')) ''heart'' (int 3 + 1) 0 fresh
       = (Inr (JStr ''tim''),
          fresh\<lparr>cache := [(''heart'', JStr ''tim'')],
            trace := [Construct,
              Invoke ''heart'', Print (Retry 1 4 0 ''timeout''), Sleep 0,
              Invoke ''heart'', Print (Retry 2 4 0 ''timeout''), Sleep 0,
              Invoke ''heart'', Print (Retry 3 4 0 ''timeout''), Sleep 0,
              Invoke ''heart'']\<rparr>)
   \<and> \<not> sorted_wrt (<) [0, 0, 0 :: real]
   \<and> translate_text (hollow 3 (JStr ''tim'')) ''heart'' (int 3 + 1) 1 fresh
       = (Inr (JStr ''tim''),
          fresh\<lparr>cache := [(''heart'', JStr ''tim'')],
            trace := [Construct, Invoke ''heart'', Invoke ''heart'', Invoke ''heart'',
              Invoke ''heart'']\<rparr>)
   \<and> translate_text (flaky 1 (JStr ''tim'')) ''heart'' (int 1 + 1) 10000000000 fresh
       = (Inl OverflowError,
          fresh\<lparr>trace := [Construct, Invoke ''heart'',
            Print (Retry 1 2 10000000000 ''timeout'')]\<rparr>)"
proof -
  have c1: "translate_text (flaky 3 (JStr ''tim'')) ''heart'' (int 3 + 1) 0 fresh
       = (Inr (JStr ''tim''),
          fresh\<lparr>cache := [(''heart'', JStr ''tim'')],
            trace := [Construct,
              Invoke ''heart'', Print (Retry 1 4 0 ''timeout''), Sleep 0,
              Invoke ''heart'', Print (Retry 2 4 0 ''timeout''), Sleep 0,
              Invoke ''heart'', Print (Retry 3 4 0 ''timeout''), Sleep 0,
              Invoke ''heart'']\<rparr>)"
    by (simp add: translate_text_def strip_def isspace_def flaky_def sample_env_def fresh_def
        constructions_def invoked_def emit_def upto_rec1 and_then_def py_sleep_def)
  have c2: "\<not> sorted_wrt (<) [0, 0, 0 :: real]"
    by simp
  have c3: "translate_text (hollow 3 (JStr ''tim'')) ''heart'' (int 3 + 1) 1 fresh
       = (Inr (JStr ''tim''),
          fresh\<lparr>cache := [(''heart'', JStr ''tim'')],
            trace := [Construct, Invoke ''heart'', Invoke ''heart'', Invoke ''heart'',
              Invoke ''heart'']\<rparr>)"
    by (simp add: translate_text_def strip_def isspace_def hollow_def sample_env_def fresh_def
        constructions_def invoked_def emit_def upto_rec1 and_then_def py_sleep_def)
  have c4: "translate_text (flaky 1 (JStr ''tim'')) ''heart'' (int 1 + 1) 10000000000 fresh
       = (Inl OverflowError,
          fresh\<lparr>trace := [Construct, Invoke ''heart'',
            Print (Retry 1 2 10000000000 ''timeout'')]\<rparr>)"
    by (simp add: translate_text_def strip_def isspace_def flaky_def sample_env_def fresh_def
        constructions_def invoked_def emit_def upto_rec1 and_then_def py_sleep_def)
  show ?thesis
    by (intro conjI) (fact c1 c2 c3 c4)+
qed

text \<open>
  Claim C5, amended. Let the text be neither blank nor cached and let the client be
  constructed without an exception. If the provider raises at the next \<open>N\<close> calls and
  then returns a translation \<open>t\<close> (a truthy value), and each of the \<open>N\<close> backoff delays
  \<open>base_delay * 2 ^ i\<close> can be computed and is a duration that \<^verbatim>\<open>time.sleep\<close> accepts
  (not negative and not too large), then \<^verbatim>\<open>translate_text\<close> with the retry ceiling
  \<open>N + 1\<close> returns \<open>t\<close>, has invoked the provider \<open>N + 1\<close> times and has slept exactly
  \<open>N\<close> times, for \<open>base_delay * 2 ^ i\<close> seconds at the \<open>i\<close>-th failure. These durations
  are strictly increasing exactly when the base delay is positive (the default is 1.0)
  or there is at most one of them. The translation is stored in the cache. Durations
  are exact real numbers here.
\<close>

theorem translate_text_backoff:
  assumes "\<not> blank text" and "map_of (cache s) text = None" and "construct E (constructions s) = None"
    and fails: "\<forall>k<N. \<exists>e. translate E (length (invoked s) + k) text = Raises e"
    and ok: "translate E (length (invoked s) + N) text = Returns t" and "truthy t"
    and "backoff_ok E base_delay N"
  shows "\<exists>s'. translate_text E text (int N + 1) base_delay s = (Inr t, s')
     \<and> sleeps s' = sleeps s @ map (\<lambda>i. base_delay * 2 ^ i) [0..<N]
     \<and> (sorted_wrt (<) (map (\<lambda>i. base_delay * 2 ^ i) [0..<N]) \<longleftrightarrow> 0 < base_delay \<or> N \<le> 1)
     \<and> invoked s' = invoked s @ replicate (N + 1) text
     \<and> cache s' = AList.update text t (cache s)"
proof -
  let ?s0 = "emit Construct s"
  have start: "translate_text E text (int N + 1) base_delay s
      = retry_loop E text (int N + 1) base_delay [0..int N + 1 - 1] ?s0"
    using assms(1-3) by (simp add: translate_text_def blank_iff)
  have f: "\<forall>k<N. \<exists>e. translate E (length (invoked ?s0) + k) text = Raises e"
    using fails by simp
  have b: "\<forall>k<N. nat 0 + k < 1024 \<and> sleep_ok E (base_delay * 2 ^ (nat 0 + k))"
    using assms(7) by (simp add: backoff_ok_def)
  from retry_loop_raises [OF b f, of "int N + 1"]
  obtain s1 where s1:
    "retry_loop E text (int N + 1) base_delay [0..int N + 1 - 1] ?s0
       = retry_loop E text (int N + 1) base_delay [int N..int N + 1 - 1] s1"
    "invoked s1 = invoked ?s0 @ replicate N text"
    "sleeps s1 = sleeps ?s0 @ map (\<lambda>i. base_delay * 2 ^ i) [0..<N]"
    "cache s1 = cache ?s0"
    by auto
  have last: "retry_loop E text (int N + 1) base_delay [int N..int N + 1 - 1] s1
      = (Inr t, (emit (Invoke text) s1)\<lparr>cache := AList.update text t (cache s1)\<rparr>)"
    using ok assms(6) s1(2) by simp
  note sorted = backoff_sorted [OF assms(7)]
  show ?thesis
    using start s1 last sorted
    by (auto simp: replicate_append_same)
qed

theorem translate_text_backoff_witness:
  "translate_text (flaky 3 (JStr ''tim'')) ''heart'' (int 3 + 1) 1 fresh
       = (Inr (JStr ''tim''),
          fresh\<lparr>cache := [(''heart'', JStr ''tim'')],
            trace := [Construct,
              Invoke ''heart'', Print (Retry 1 4 1 ''timeout''), Sleep 1,
              Invoke ''heart'', Print (Retry 2 4 2 ''timeout''), Sleep 2,
              Invoke ''heart'', Print (Retry 3 4 4 ''timeout''), Sleep 4,
              Invoke ''heart'']\<rparr>)
   \<and> sleeps (snd (translate_text (flaky 3 (JStr ''tim'')) ''heart'' (int 3 + 1) 1 fresh)) = [1, 2, 4]
   \<and> sorted_wrt (<) [1, 2, 4 :: real]
   \<and> invoked (snd (translate_text (flaky 3 (JStr ''tim'')) ''heart'' (int 3 + 1) 1 fresh))
       = [''heart'', ''heart'', ''heart'', ''heart'']"
proof -
  let ?E = "flaky 3 (JStr ''tim'')"
  have run: "translate_text ?E ''heart'' (int 3 + 1) 1 fresh
       = (Inr (JStr ''tim''),
          fresh\<lparr>cache := [(''heart'', JStr ''tim'')],
            trace := [Construct,
              Invoke ''heart'', Print (Retry 1 4 1 ''timeout''), Sleep 1,
              Invoke ''heart'', Print (Retry 2 4 2 ''timeout''), Sleep 2,
              Invoke ''heart'', Print (Retry 3 4 4 ''timeout''), Sleep 4,
              Invoke ''heart'']\<rparr>)"
    by (simp add: translate_text_def strip_def isspace_def flaky_def sample_env_def fresh_def
        constructions_def invoked_def emit_def upto_rec1 and_then_def py_sleep_def)
  have h1: "\<not> blank ''heart''"
    by (simp add: blank_def isspace_def)
  have h2: "map_of (cache fresh) ''heart'' = None"
    by (simp add: fresh_def)
  have h3: "construct ?E (constructions fresh) = None"
    by (simp add: flaky_def sample_env_def)
  have h4: "\<forall>k<3. \<exists>e. translate ?E (length (invoked fresh) + k) ''heart'' = Raises e"
    by (simp add: flaky_def sample_env_def fresh_def invoked_def)
  have h5: "translate ?E (length (invoked fresh) + 3) ''heart'' = Returns (JStr ''tim'')"
    by (simp add: flaky_def sample_env_def fresh_def invoked_def)
  have h6: "truthy (JStr ''tim'')" by simp
  have h7: "backoff_ok ?E 1 3"
    by (rule backoff_okI) (simp_all add: flaky_def sample_env_def)
  from translate_text_backoff [OF h1 h2 h3 h4 h5 h6 h7]
  obtain s' where s': "translate_text ?E ''heart'' (int 3 + 1) 1 fresh = (Inr (JStr ''tim''), s')"
    "sleeps s' = sleeps fresh @ map (\<lambda>i. 1 * 2 ^ i) [0..<3]"
    "sorted_wrt (<) (map (\<lambda>i. (1::real) * 2 ^ i) [0..<3]) \<longleftrightarrow> (0::real) < 1 \<or> (3::nat) \<le> 1"
    "invoked s' = invoked fresh @ replicate (3 + 1) ''heart''"
    by blast
  have up: "[0..<3] = [0, 1, 2]"
    by (simp add: upt_rec)
  have "sleeps s' = [1, 2, 4]" "sorted_wrt (<) [1, 2, 4 :: real]"
    "invoked s' = [''heart'', ''heart'', ''heart'', ''heart'']"
    using s'(2-4) by (simp_all add: up fresh_def sleeps_def invoked_def numeral_eq_Suc)
  with run s'(1) show ?thesis by simp
qed

subsection \<open>Persisting the cache\<close>

text \<open>
  Claim C7. \<^verbatim>\<open>save_cache\<close> never raises, wherever the file system fails. Every
  file-system state it goes through has, at the path of the cache file, either the
  content from before the call or the complete serialized cache: the text is written to
  the temporary file, and the cache file changes only in the one step of \<^verbatim>\<open>os.replace\<close>.
  Without a fault the cache file ends with the complete text and nothing is printed;
  with a fault it keeps its content and one warning is printed.
\<close>

theorem save_cache_atomic:
  "fst (save_cache E path s) = Inr ()
   \<and> (\<exists>new. history (snd (save_cache E path s)) = history s @ new
        \<and> (\<forall>f\<in>set new. f path = files s path \<or> f path = Some (dump_cache E (cache s))))
   \<and> (fault E (saves s) = NoFault \<longrightarrow>
        files (snd (save_cache E path s)) path = Some (dump_cache E (cache s))
        \<and> trace (snd (save_cache E path s)) = trace s)
   \<and> (fault E (saves s) \<noteq> NoFault \<longrightarrow>
        files (snd (save_cache E path s)) path = files s path
        \<and> (\<exists>x. trace (snd (save_cache E path s)) = trace s @ [Print (CacheWarning x)]))"
proof (cases "fault E (saves s)")
  case NoFault
  then show ?thesis
    by (simp add: save_cache_def Let_def and_then_def open_w_def json_dump_def os_replace_def
        put_file_def move_file_def)
next
  case (OpenFails e)
  then show ?thesis
    by (simp add: save_cache_def Let_def and_then_def open_w_def json_dump_def os_replace_def
        put_file_def move_file_def)
next
  case (DumpFails n e)
  then show ?thesis
    by (simp add: save_cache_def Let_def and_then_def open_w_def json_dump_def os_replace_def
        put_file_def move_file_def)
next
  case (ReplaceFails e)
  then show ?thesis
    by (simp add: save_cache_def Let_def and_then_def open_w_def json_dump_def os_replace_def
        put_file_def move_file_def)
qed

theorem save_cache_atomic_witness:
  \<open>fst (save_cache (cache_env (\<lambda>n. DumpFails 5 ''disk full'')) ''cache.json'' on_disk) = Inr ()
   \<and> files (snd (save_cache (cache_env (\<lambda>n. DumpFails 5 ''disk full'')) ''cache.json'' on_disk))
        ''cache.json'' = Some ''{}''
   \<and> files (snd (save_cache (cache_env (\<lambda>n. DumpFails 5 ''disk full'')) ''cache.json'' on_disk))
        ''cache.json.tmp'' = Some ''{"hea''
   \<and> trace (snd (save_cache (cache_env (\<lambda>n. DumpFails 5 ''disk full'')) ''cache.json'' on_disk))
        = [Print (CacheWarning (Raised ''disk full''))]
   \<and> fst (save_cache (cache_env (\<lambda>n. NoFault)) ''cache.json'' on_disk) = Inr ()
   \<and> files (snd (save_cache (cache_env (\<lambda>n. NoFault)) ''cache.json'' on_disk)) ''cache.json''
        = Some ''{"heart": "tim"}''
   \<and> files (snd (save_cache (cache_env (\<lambda>n. NoFault)) ''cache.json'' on_disk)) ''cache.json.tmp''
        = None
   \<and> map (\<lambda>f. f ''cache.json'')
        (history (snd (save_cache (cache_env (\<lambda>n. NoFault)) ''cache.json'' on_disk)))
        = [Some ''{}'', Some ''{}'', Some ''{"heart": "tim"}'']\<close>
  using save_cache_atomic [of "cache_env (\<lambda>n. DumpFails 5 ''disk full'')" "''cache.json''" on_disk]
    save_cache_atomic [of "cache_env (\<lambda>n. NoFault)" "''cache.json''" on_disk]
  by (simp add: save_cache_def Let_def and_then_def open_w_def json_dump_def os_replace_def
      put_file_def move_file_def cache_env_def sample_env_def on_disk_def fresh_def emit_def)

subsection \<open>Resuming\<close>

text \<open>
  Claim C2. An identifier is written before when it is truthy and some line of the
  existing output file decodes to a dict with that \<^verbatim>\<open>mesh_id\<close>; lines that do not
  decode, wherever they stand, change nothing. In resume mode, for an input whose
  reader yields the well-typed records \<open>recs\<close> and any existing output file,
  \<^verbatim>\<open>process\<close> returns normally and the identifiers of the records it writes are, in
  order, the identifiers of the input records that are not written before: each
  written line is the translation of such a record, the provider is invoked only with
  field texts of such records, and the existing lines stay in front of the new ones.
  With the identifiers A and B in the file and the input records A, B and C, only C is
  translated and written, as the sample run shows. The run is one in which the client
  is constructed without fault and \<^verbatim>\<open>time.sleep\<close> accepts the delay and the 8 seconds of
  the longest backoff.
\<close>

theorem resume_skips_written_records:
  assumes "\<forall>n. construct E n = None" and "sleep_ok E delay" and "sleep_ok E 8"
    and "read_objects E input = map JObj recs"
    and "\<forall>kvs\<in>set recs. well_typed True (JObj kvs)"
  shows "\<exists>s' new. process E input (Some lines) cache_path delay True s = (Inr (), s')
     \<and> out s' = map (line_of E) new
     \<and> output_file True (Some lines) (out s') = lines @ map (line_of E) new
     \<and> list_all2 translation_of
          (map JObj (filter (\<lambda>kvs. \<not> written_before E lines (dict_get kvs ''mesh_id'')) recs))
          new
     \<and> map (\<lambda>kvs. dict_get kvs ''mesh_id'') new
         = filter (\<lambda>m. \<not> written_before E lines m)
             (map (\<lambda>kvs. dict_get kvs ''mesh_id'') recs)
     \<and> (\<exists>ws. invoked s' = invoked s @ ws
          \<and> set ws \<subseteq> (\<Union>kvs\<in>{kvs \<in> set recs.
                 \<not> written_before E lines (dict_get kvs ''mesh_id'')}.
               field_texts (JObj kvs)))"
proof -
  let ?ids = "collect_ids E lines"
  let ?keep = "\<lambda>kvs. \<not> written_before E lines (dict_get kvs ''mesh_id'')"
  have wt: "\<forall>obj\<in>set (read_objects E input). well_typed True obj"
    using assms(4,5) by auto
  from process_run [OF assms(1,2) default_backoff [OF assms(3)] wt, of "Some lines" cache_path s]
  obtain s' new ws where run:
    "process E input (Some lines) cache_path delay True s = (Inr (), s')"
    "out s' = map (line_of E) new"
    "list_all2 translation_of
       (filter (\<lambda>obj. \<not> skipped True ?ids obj) (map JObj recs)) new"
    "invoked s' = invoked s @ ws"
    "set ws \<subseteq> (\<Union>obj\<in>{obj \<in> set (map JObj recs). \<not> skipped True ?ids obj}. field_texts obj)"
    unfolding assms(4) resume_set_lines by blast
  have flt: "filter (\<lambda>obj. \<not> skipped True ?ids obj) (map JObj recs) = map JObj (filter ?keep recs)"
    by (simp add: filter_map comp_def skipped_dict already_written_collect)
  have all2: "list_all2 translation_of (map JObj (filter ?keep recs)) new"
    using run(3) flt by simp
  then have "list_all2 (\<lambda>kvs kvs'. dict_get kvs' ''mesh_id'' = dict_get kvs ''mesh_id'')
      (filter ?keep recs) new"
    by (simp add: list_all2_map1) (erule list_all2_mono, rule translation_of_mesh_id)
  then have "map (\<lambda>kvs. dict_get kvs ''mesh_id'') new
      = map (\<lambda>kvs. dict_get kvs ''mesh_id'') (filter ?keep recs)"
    by (induction rule: list_all2_induct) auto
  then have ids: "map (\<lambda>kvs. dict_get kvs ''mesh_id'') new
      = filter (\<lambda>m. \<not> written_before E lines m) (map (\<lambda>kvs. dict_get kvs ''mesh_id'') recs)"
    by (simp add: filter_map comp_def)
  have sub: "set ws \<subseteq> (\<Union>kvs\<in>{kvs \<in> set recs. ?keep kvs}. field_texts (JObj kvs))"
  proof
    fix w assume "w \<in> set ws"
    with run(5) obtain obj where "obj \<in> set (map JObj recs)" "\<not> skipped True ?ids obj"
      "w \<in> field_texts obj"
      by blast
    then obtain kvs where "kvs \<in> set recs" "obj = JObj kvs" by auto
    with \<open>\<not> skipped True ?ids obj\<close> \<open>w \<in> field_texts obj\<close>
    show "w \<in> (\<Union>kvs\<in>{kvs \<in> set recs. ?keep kvs}. field_texts (JObj kvs))"
      by (auto simp: skipped_dict already_written_collect)
  qed
  show ?thesis
    using run(1,2,4) all2 ids sub
    by (intro exI [of _ s'] exI [of _ new]) (auto simp: output_file_def)
qed

theorem resume_skips_written_records_witness:
  \<open>process abc_env abc_input (Some ab_lines) ''cache.json'' 0.5 True fresh
   = (Inr (), fresh\<lparr>cache := [(''liver'', JStr ''gan'')],
        trace := [Construct, Invoke ''liver'', Sleep 0.5, Sleep 0.5],
        out := [''{"mesh_id": "C", "term_en": "liver", "term_vi": "gan"}\<newline>''],
        written := 1, total_read := 3,
        files := [''cache.json'' \<mapsto> []],
        history := [[''cache.json.tmp'' \<mapsto> []], [''cache.json.tmp'' \<mapsto> []], [''cache.json'' \<mapsto> []]],
        saves := 1\<rparr>)
   \<and> written_before abc_env ab_lines (JStr ''A'') \<and> written_before abc_env ab_lines (JStr ''B'')
   \<and> \<not> written_before abc_env ab_lines (JStr ''C'')
   \<and> map (loads abc_env) ab_lines
       = [None, Some (JObj [(''mesh_id'', JStr ''A''), (''term_en'', JStr ''heart'')]),
          Some (JObj [(''mesh_id'', JStr ''B''), (''term_en'', JStr ''lung'')])]
   \<and> read_objects abc_env abc_input
       = [JObj [(''mesh_id'', JStr ''A''), (''term_en'', JStr ''heart'')],
          JObj [(''mesh_id'', JStr ''B''), (''term_en'', JStr ''lung'')],
          JObj [(''mesh_id'', JStr ''C''), (''term_en'', JStr ''liver'')]]
   \<and> output_file True (Some ab_lines)
         (out (snd (process abc_env abc_input (Some ab_lines) ''cache.json'' 0.5 True fresh)))
       = [''{"mesh_id": "C", "term_en": "li\<newline>'',
          ''{"mesh_id": "A", "term_en": "heart"}\<newline>'', ''{"mesh_id": "B", "term_en": "lung"}\<newline>'',
          ''{"mesh_id": "C", "term_en": "liver", "term_vi": "gan"}\<newline>'']
   \<and> invoked (snd (process abc_env abc_input (Some ab_lines) ''cache.json'' 0.5 True fresh))
       = [''liver'']\<close>
proof -
  let ?recs = "[[(''mesh_id'', JStr ''A''), (''term_en'', JStr ''heart'')],
      [(''mesh_id'', JStr ''B''), (''term_en'', JStr ''lung'')],
      [(''mesh_id'', JStr ''C''), (''term_en'', JStr ''liver'')]]"
  have scan: \<open>fst (scan_all abc_input init_scanner)
     = [''{"mesh_id": "A", "term_en": "heart"}'', ''{"mesh_id": "B", "term_en": "lung"}'',
        ''{"mesh_id": "C", "term_en": "liver"}'']\<close>
    by (simp add: abc_input_def scan_all_step scan_char_eval init_scanner_def)
  have ids: "collect_ids abc_env ab_lines = {KStr ''A'', KStr ''B''}"
    by (auto simp: collect_ids_def line_id_def abc_env_def sample_env_def abc_texts_def
        ab_lines_def)
  have run: \<open>process abc_env abc_input (Some ab_lines) ''cache.json'' 0.5 True fresh
     = (Inr (), fresh\<lparr>cache := [(''liver'', JStr ''gan'')],
          trace := [Construct, Invoke ''liver'', Sleep 0.5, Sleep 0.5],
          out := [''{"mesh_id": "C", "term_en": "liver", "term_vi": "gan"}\<newline>''],
          written := 1, total_read := 3,
          files := [''cache.json'' \<mapsto> []],
          history := [[''cache.json.tmp'' \<mapsto> []], [''cache.json.tmp'' \<mapsto> []], [''cache.json'' \<mapsto> []]],
          saves := 1\<rparr>)\<close>
    unfolding process_texts scan resume_set_lines ids
    by (simp add: on_text_def handle_record_def should_skip_def dict_get_def translate_field_def
        translate_text_def strip_def isspace_def write_record_def save_cache_def open_w_def
        json_dump_def os_replace_def put_file_def move_file_def py_sleep_def
        abc_env_def sample_env_def abc_texts_def fresh_def emit_def constructions_def invoked_def
        upto_rec1 Let_def cong: and_then_cong)
  have h1: "\<forall>n. construct abc_env n = None"
    by (simp add: abc_env_def sample_env_def)
  have h2: "sleep_ok abc_env 0.5" and h2': "sleep_ok abc_env 8"
    by (simp_all add: sleep_ok_def abc_env_def sample_env_def)
  have w1: "written_before abc_env ab_lines (JStr ''A'')"
    and w2: "written_before abc_env ab_lines (JStr ''B'')"
    and w3: "\<not> written_before abc_env ab_lines (JStr ''C'')"
    by (simp_all add: written_before_def names_id_def abc_env_def sample_env_def abc_texts_def
        ab_lines_def)
  have lds: "map (loads abc_env) ab_lines
       = [None, Some (JObj [(''mesh_id'', JStr ''A''), (''term_en'', JStr ''heart'')]),
          Some (JObj [(''mesh_id'', JStr ''B''), (''term_en'', JStr ''lung'')])]"
    by (simp add: abc_env_def sample_env_def abc_texts_def ab_lines_def)
  have h3: "read_objects abc_env abc_input = map JObj ?recs"
    by (simp add: read_objects_def scan abc_env_def sample_env_def abc_texts_def map_filter_simps)
  have h4: "\<forall>kvs\<in>set ?recs. well_typed True (JObj kvs)"
    by (simp add: well_typed_def text_field_def dict_get_def)
  from resume_skips_written_records [OF h1 h2 h2' h3 h4, of ab_lines "''cache.json''" fresh]
  have ok: "fst (process abc_env abc_input (Some ab_lines) ''cache.json'' 0.5 True fresh) = Inr ()"
    by auto
  have c3: \<open>read_objects abc_env abc_input
       = [JObj [(''mesh_id'', JStr ''A''), (''term_en'', JStr ''heart'')],
          JObj [(''mesh_id'', JStr ''B''), (''term_en'', JStr ''lung'')],
          JObj [(''mesh_id'', JStr ''C''), (''term_en'', JStr ''liver'')]]\<close>
    using h3 by simp
  have c4: \<open>output_file True (Some ab_lines)
         (out (snd (process abc_env abc_input (Some ab_lines) ''cache.json'' 0.5 True fresh)))
       = [''{"mesh_id": "C", "term_en": "li\<newline>'',
          ''{"mesh_id": "A", "term_en": "heart"}\<newline>'', ''{"mesh_id": "B", "term_en": "lung"}\<newline>'',
          ''{"mesh_id": "C", "term_en": "liver", "term_vi": "gan"}\<newline>'']\<close>
    using ok unfolding run by (simp add: output_file_def ab_lines_def)
  have c5: \<open>invoked (snd (process abc_env abc_input (Some ab_lines) ''cache.json'' 0.5 True fresh))
       = [''liver'']\<close>
    unfolding run by (simp add: invoked_def fresh_def)
  show ?thesis
    by (intro conjI) (fact run w1 w2 w3 lds c3 c4 c5)+
qed

subsection \<open>A provider that always fails\<close>

text \<open>
  Claim C6, as the code has it. \<^verbatim>\<open>process\<close> stores a translation under \<^verbatim>\<open>term_vi\<close> only
  when there is one (line 145) and never removes a key. A record that already carries
  \<^verbatim>\<open>term_vi\<close> is written with that value when every call of the provider raises: the
  key is neither absent nor empty, although \<^verbatim>\<open>translate_text\<close> returned \<^verbatim>\<open>None\<close> for the
  source field after 5 attempts.
\<close>

theorem kept_translation_counterexample:
  \<open>(case process kept_env kept_input None ''cache.json'' 0.5 False fresh of
        (r, s') \<Rightarrow> (r, out s', invoked s'))
     = (Inr (), [''{"mesh_id": "A", "term_en": "heart", "term_vi": "old"}\<newline>''],
        replicate 5 ''heart'')
   \<and> read_objects kept_env kept_input
     = [JObj [(''mesh_id'', JStr ''A''), (''term_en'', JStr ''heart''), (''term_vi'', JStr ''old'')]]
   \<and> loads kept_env ''{"mesh_id": "A", "term_en": "heart", "term_vi": "old"}''
     = Some (JObj [(''mesh_id'', JStr ''A''), (''term_en'', JStr ''heart''), (''term_vi'', JStr ''old'')])
   \<and> fst (translate_text kept_env ''heart'' 5 1 fresh) = Inr JNull\<close>
proof -
  have scan: \<open>fst (scan_all kept_input init_scanner)
     = [''{"mesh_id": "A", "term_en": "heart", "term_vi": "old"}'']\<close>
    by (simp add: kept_input_def scan_all_step scan_char_eval init_scanner_def)
  have c1: \<open>(case process kept_env kept_input None ''cache.json'' 0.5 False fresh of
        (r, s') \<Rightarrow> (r, out s', invoked s'))
     = (Inr (), [''{"mesh_id": "A", "term_en": "heart", "term_vi": "old"}\<newline>''],
        replicate 5 ''heart'')\<close>
    unfolding process_texts scan
    by (simp add: on_text_def handle_record_def should_skip_def dict_get_def translate_field_def
        translate_text_def strip_def isspace_def write_record_def save_cache_def open_w_def
        json_dump_def os_replace_def put_file_def move_file_def py_sleep_def resume_set_def
        kept_env_def sample_env_def kept_texts_def fresh_def emit_def constructions_def invoked_def
        upto_rec1 Let_def numeral_eq_Suc cong: and_then_cong)
  have c2: \<open>read_objects kept_env kept_input
     = [JObj [(''mesh_id'', JStr ''A''), (''term_en'', JStr ''heart''), (''term_vi'', JStr ''old'')]]\<close>
    by (simp add: read_objects_def scan kept_env_def sample_env_def kept_texts_def map_filter_simps)
  have c3: \<open>loads kept_env ''{"mesh_id": "A", "term_en": "heart", "term_vi": "old"}''
     = Some (JObj [(''mesh_id'', JStr ''A''), (''term_en'', JStr ''heart''), (''term_vi'', JStr ''old'')])\<close>
    by (simp add: kept_env_def sample_env_def kept_texts_def)
  have c4: "fst (translate_text kept_env ''heart'' 5 1 fresh) = Inr JNull"
    by (simp add: translate_text_def strip_def isspace_def kept_env_def sample_env_def fresh_def
        constructions_def invoked_def emit_def upto_rec1 py_sleep_def)
  show ?thesis
    by (intro conjI) (fact c1 c2 c3 c4)+
qed

text \<open>
  Claim C6, amended. Let every call of the provider raise and the client be
  constructed without fault. Then for every text that is neither blank nor cached and
  every retry ceiling \<open>K\<close> whose \<open>K - 1\<close> backoff delays \<^verbatim>\<open>time.sleep\<close> accepts,
  \<^verbatim>\<open>translate_text\<close> returns \<^verbatim>\<open>None\<close> after exactly \<open>K\<close> calls of the provider and leaves
  the cache as it is. And \<^verbatim>\<open>process\<close>, with a delay and the 8 seconds of the longest
  backoff accepted by \<^verbatim>\<open>time.sleep\<close>, on an input whose reader yields the well-typed
  records \<open>recs\<close> with no field text in the cache, returns normally having written
  every record that is not skipped, each exactly as it was read: no \<^verbatim>\<open>term_vi\<close> or
  \<^verbatim>\<open>definition_vi\<close> key is added, changed or removed, so the key is absent from the
  written record exactly when the input record has none.
\<close>

theorem provider_always_fails:
  assumes "\<forall>n t. \<exists>e. translate E n t = Raises e" and "\<forall>n. construct E n = None"
  shows "(\<not> blank text \<and> map_of (cache s) text = None \<and> backoff_ok E base_delay (K - 1) \<longrightarrow>
            (\<exists>s'. translate_text E text (int K) base_delay s = (Inr JNull, s')
               \<and> invoked s' = invoked s @ replicate K text \<and> cache s' = cache s))
     \<and> (sleep_ok E delay \<and> sleep_ok E 8 \<and> read_objects E input = map JObj recs
          \<and> (\<forall>kvs\<in>set recs. well_typed resume (JObj kvs))
          \<and> (\<forall>kvs\<in>set recs. \<forall>t\<in>field_texts (JObj kvs). map_of (cache s) t = None) \<longrightarrow>
            (\<exists>s'. process E input existing cache_path delay resume s = (Inr (), s')
               \<and> out s' = map (line_of E)
                    (filter (\<lambda>kvs. \<not> skipped resume (resume_set E resume existing) (JObj kvs)) recs)
               \<and> cache s' = cache s))"
proof (intro conjI impI)
  assume "\<not> blank text \<and> map_of (cache s) text = None \<and> backoff_ok E base_delay (K - 1)"
  moreover have "\<forall>n. \<exists>e. translate E n text = Raises e" using assms(1) by simp
  ultimately show "\<exists>s'. translate_text E text (int K) base_delay s = (Inr JNull, s')
      \<and> invoked s' = invoked s @ replicate K text \<and> cache s' = cache s"
    using translate_text_exhausted [of E "text" s base_delay K] assms(2) by auto
next
  assume a: "sleep_ok E delay \<and> sleep_ok E 8 \<and> read_objects E input = map JObj recs
      \<and> (\<forall>kvs\<in>set recs. well_typed resume (JObj kvs))
      \<and> (\<forall>kvs\<in>set recs. \<forall>t\<in>field_texts (JObj kvs). map_of (cache s) t = None)"
  let ?s0 = "s\<lparr>out := [], written := 0, total_read := 0\<rparr>"
  let ?ids = "resume_set E resume existing"
  have unc: "\<forall>kvs\<in>set recs. \<forall>t\<in>field_texts (JObj kvs). map_of (cache ?s0) t = None"
    using a by simp
  from a have dec: "List.map_filter (loads E) (fst (scan_all input init_scanner)) = map JObj recs"
    by (simp add: read_objects_def)
  from a have sl: "sleep_ok E delay" and bo: "backoff_ok E 1 4"
    by (simp_all add: default_backoff)
  from texts_loop_fails [OF assms(1,2) sl bo dec _ unc, of resume cache_path ?ids] a
  obtain s1 where s1: "texts_loop E cache_path delay resume ?ids (fst (scan_all input init_scanner)) ?s0
      = (Inr (), s1)"
    "out s1 = out ?s0 @ map (line_of E) (filter (\<lambda>kvs. \<not> skipped resume ?ids (JObj kvs)) recs)"
    "cache s1 = cache ?s0"
    by blast
  obtain s2 where s2: "save_cache E cache_path s1 = (Inr (), s2)" "quiet s1 s2"
    using save_cache_returns [of E cache_path s1] save_cache_quiet [of s1 E cache_path]
    by (cases "save_cache E cache_path s1") auto
  have "process E input existing cache_path delay resume s = (Inr (), s2)"
    by (simp add: process_texts s1(1) s2(1))
  with s1(2,3) s2(2) show "\<exists>s'. process E input existing cache_path delay resume s = (Inr (), s')
      \<and> out s' = map (line_of E) (filter (\<lambda>kvs. \<not> skipped resume ?ids (JObj kvs)) recs)
      \<and> cache s' = cache s"
    by (auto simp: quiet_def)
qed

theorem provider_always_fails_witness:
  \<open>translate_text failing_env ''heart'' (int 3) 1 fresh
     = (Inr JNull,
        fresh\<lparr>trace := [Construct,
          Invoke ''heart'', Print (Retry 1 3 1 ''timeout''), Sleep 1,
          Invoke ''heart'', Print (Retry 2 3 2 ''timeout''), Sleep 2,
          Invoke ''heart'', Print (Failed 3 ''heart'')]\<rparr>)
   \<and> (case process failing_env ab_input None ''cache.json'' 0.5 True fresh of
        (r, s') \<Rightarrow> (r, out s', total_read s', written s', cache s', invoked s', sleeps s'))
     = (Inr (), [''{"mesh_id": "A", "term_en": "heart"}\<newline>'', ''{"mesh_id": "B", "term_en": "lung"}\<newline>''],
        2, 2, [], replicate 5 ''heart'' @ replicate 5 ''lung'',
        [1, 2, 4, 8, 0.5, 0.5, 1, 2, 4, 8, 0.5, 0.5])\<close>
proof -
  let ?recs = "[[(''mesh_id'', JStr ''A''), (''term_en'', JStr ''heart'')],
      [(''mesh_id'', JStr ''B''), (''term_en'', JStr ''lung'')]]"
  have scan: \<open>fst (scan_all ab_input init_scanner)
     = [''{"mesh_id": "A", "term_en": "heart"}'', ''{oops}'', ''{"mesh_id": "B", "term_en": "lung"}'']\<close>
    by (simp add: ab_input_def scan_all_step scan_char_eval init_scanner_def)
  have h1: "\<forall>n t. \<exists>e. translate failing_env n t = Raises e"
    by (simp add: failing_env_def sample_env_def)
  have h2: "\<forall>n. construct failing_env n = None"
    by (simp add: failing_env_def sample_env_def)
  have h3: "backoff_ok failing_env 1 (3 - 1)"
    by (rule backoff_okI) (simp_all add: failing_env_def sample_env_def)
  have h4: "sleep_ok failing_env 0.5" and h5: "sleep_ok failing_env 8"
    by (simp_all add: sleep_ok_def failing_env_def sample_env_def)
  note inst = provider_always_fails [OF h1 h2, of "''heart''" fresh 1 3 "0.5" ab_input ?recs True None
      "''cache.json''"]
  have nb: "\<not> blank ''heart'' \<and> map_of (cache fresh) ''heart'' = None
      \<and> backoff_ok failing_env 1 (3 - 1)"
    using h3 by (simp add: blank_def isspace_def fresh_def)
  with inst have t_ok: "fst (translate_text failing_env ''heart'' (int 3) 1 fresh) = Inr JNull"
    by auto
  have rd: "read_objects failing_env ab_input = map JObj ?recs"
    by (simp add: read_objects_def scan failing_env_def sample_env_def abc_texts_def map_filter_simps)
  have wt: "\<forall>kvs\<in>set ?recs. well_typed True (JObj kvs)"
    by (simp add: well_typed_def text_field_def dict_get_def)
  have unc: "\<forall>kvs\<in>set ?recs. \<forall>t\<in>field_texts (JObj kvs). map_of (cache fresh) t = None"
    by (simp add: fresh_def)
  from inst h4 h5 rd wt unc
  have p_ok: "fst (process failing_env ab_input None ''cache.json'' 0.5 True fresh) = Inr ()"
    by auto
  have c1: \<open>translate_text failing_env ''heart'' (int 3) 1 fresh
     = (Inr JNull,
        fresh\<lparr>trace := [Construct,
          Invoke ''heart'', Print (Retry 1 3 1 ''timeout''), Sleep 1,
          Invoke ''heart'', Print (Retry 2 3 2 ''timeout''), Sleep 2,
          Invoke ''heart'', Print (Failed 3 ''heart'')]\<rparr>)\<close>
    using t_ok
    by (simp add: translate_text_def strip_def isspace_def failing_env_def sample_env_def fresh_def
        constructions_def invoked_def emit_def upto_rec1 py_sleep_def)
  have c2: \<open>(case process failing_env ab_input None ''cache.json'' 0.5 True fresh of
        (r, s') \<Rightarrow> (r, out s', total_read s', written s', cache s', invoked s', sleeps s'))
     = (Inr (), [''{"mesh_id": "A", "term_en": "heart"}\<newline>'', ''{"mesh_id": "B", "term_en": "lung"}\<newline>''],
        2, 2, [], replicate 5 ''heart'' @ replicate 5 ''lung'',
        [1, 2, 4, 8, 0.5, 0.5, 1, 2, 4, 8, 0.5, 0.5])\<close>
    using p_ok unfolding process_texts scan
    by (simp add: on_text_def handle_record_def should_skip_def dict_get_def translate_field_def
        translate_text_def strip_def isspace_def write_record_def save_cache_def open_w_def
        json_dump_def os_replace_def put_file_def move_file_def py_sleep_def resume_set_def
        failing_env_def sample_env_def abc_texts_def fresh_def emit_def constructions_def invoked_def
        sleeps_def upto_rec1 Let_def numeral_eq_Suc cong: and_then_cong)
  show ?thesis
    by (intro conjI) (fact c1 c2)+
qed

subsection \<open>Containment of failures\<close>

text \<open>
  Claim C3, as the code has it. The record loop of \<^verbatim>\<open>process\<close> has no handler around
  the handling of a record, and five kinds of exception leave it and end the batch,
  each shown by a run that stops at the first record with nothing written and the
  later records never read:
  \<^item> the client is constructed at line 52, outside the \<^verbatim>\<open>try\<close> of \<^verbatim>\<open>translate_text\<close>, so
    an exception of the constructor is not caught;
  \<^item> \<^verbatim>\<open>text.strip()\<close> at line 46 raises \<^verbatim>\<open>AttributeError\<close> for a truthy \<^verbatim>\<open>term_en\<close> that
    is not a string;
  \<^item> in resume mode \<^verbatim>\<open>mesh_id in existing_ids\<close> at line 137 raises \<^verbatim>\<open>TypeError\<close> for
    an identifier that cannot be hashed;
  \<^item> \<^verbatim>\<open>time.sleep(delay)\<close> at line 149 raises \<^verbatim>\<open>ValueError\<close> for a negative delay
  \<^item> and \<^verbatim>\<open>OverflowError\<close> for a delay that is too large.
\<close>

theorem uncontained_exceptions_counterexample:
  \<open>process broken_env abc_input None ''cache.json'' 0.5 True fresh
     = (Inl (Raised ''no network''), fresh\<lparr>trace := [Construct], total_read := 1\<rparr>)
   \<and> read_objects broken_env abc_input
     = [JObj [(''mesh_id'', JStr ''A''), (''term_en'', JStr ''heart'')],
        JObj [(''mesh_id'', JStr ''B''), (''term_en'', JStr ''lung'')],
        JObj [(''mesh_id'', JStr ''C''), (''term_en'', JStr ''liver'')]]
   \<and> process odd_env number_input None ''cache.json'' 0.5 True fresh
     = (Inl AttributeError, fresh\<lparr>total_read := 1\<rparr>)
   \<and> read_objects odd_env number_input
     = [JObj [(''mesh_id'', JStr ''A''), (''term_en'', JInt 5)],
        JObj [(''mesh_id'', JStr ''B''), (''term_en'', JStr ''lung'')]]
   \<and> process odd_env list_id_input None ''cache.json'' 0.5 True fresh
     = (Inl TypeError, fresh\<lparr>total_read := 1\<rparr>)
   \<and> read_objects odd_env list_id_input
     = [JObj [(''mesh_id'', JArr [JStr ''A'']), (''term_en'', JStr ''heart'')],
        JObj [(''mesh_id'', JStr ''B''), (''term_en'', JStr ''lung'')]]
   \<and> process abc_env abc_input None ''cache.json'' (- 1) True fresh
     = (Inl ValueError, fresh\<lparr>cache := [(''heart'', JStr ''gan'')],
          trace := [Construct, Invoke ''heart''], total_read := 1\<rparr>)
   \<and> process abc_env abc_input None ''cache.json'' 10000000000 True fresh
     = (Inl OverflowError, fresh\<lparr>cache := [(''heart'', JStr ''gan'')],
          trace := [Construct, Invoke ''heart''], total_read := 1\<rparr>)\<close>
proof -
  have scan: \<open>fst (scan_all abc_input init_scanner)
     = [''{"mesh_id": "A", "term_en": "heart"}'', ''{"mesh_id": "B", "term_en": "lung"}'',
        ''{"mesh_id": "C", "term_en": "liver"}'']\<close>
    by (simp add: abc_input_def scan_all_step scan_char_eval init_scanner_def)
  have scan_n: \<open>fst (scan_all number_input init_scanner)
     = [''{"mesh_id": "A", "term_en": 5}'', ''{"mesh_id": "B", "term_en": "lung"}'']\<close>
    by (simp add: number_input_def scan_all_step scan_char_eval init_scanner_def)
  have scan_l: \<open>fst (scan_all list_id_input init_scanner)
     = [''{"mesh_id": ["A"], "term_en": "heart"}'', ''{"mesh_id": "B", "term_en": "lung"}'']\<close>
    by (simp add: list_id_input_def scan_all_step scan_char_eval init_scanner_def)
  have c1: \<open>process broken_env abc_input None ''cache.json'' 0.5 True fresh
     = (Inl (Raised ''no network''), fresh\<lparr>trace := [Construct], total_read := 1\<rparr>)\<close>
    unfolding process_texts scan
    by (simp add: on_text_def handle_record_def should_skip_def dict_get_def translate_field_def
        translate_text_def strip_def isspace_def resume_set_def
        broken_env_def sample_env_def abc_texts_def fresh_def emit_def constructions_def
        Let_def cong: and_then_cong)
  have c2: \<open>read_objects broken_env abc_input
     = [JObj [(''mesh_id'', JStr ''A''), (''term_en'', JStr ''heart'')],
        JObj [(''mesh_id'', JStr ''B''), (''term_en'', JStr ''lung'')],
        JObj [(''mesh_id'', JStr ''C''), (''term_en'', JStr ''liver'')]]\<close>
    by (simp add: read_objects_def scan broken_env_def sample_env_def abc_texts_def map_filter_simps)
  have c3: \<open>process odd_env number_input None ''cache.json'' 0.5 True fresh
     = (Inl AttributeError, fresh\<lparr>total_read := 1\<rparr>)\<close>
    unfolding process_texts scan_n
    by (simp add: on_text_def handle_record_def should_skip_def dict_get_def translate_field_def
        resume_set_def odd_env_def sample_env_def odd_texts_def fresh_def
        Let_def cong: and_then_cong)
  have c4: \<open>read_objects odd_env number_input
     = [JObj [(''mesh_id'', JStr ''A''), (''term_en'', JInt 5)],
        JObj [(''mesh_id'', JStr ''B''), (''term_en'', JStr ''lung'')]]\<close>
    by (simp add: read_objects_def scan_n odd_env_def sample_env_def odd_texts_def map_filter_simps)
  have c5: \<open>process odd_env list_id_input None ''cache.json'' 0.5 True fresh
     = (Inl TypeError, fresh\<lparr>total_read := 1\<rparr>)\<close>
    unfolding process_texts scan_l
    by (simp add: on_text_def handle_record_def should_skip_def dict_get_def
        resume_set_def odd_env_def sample_env_def odd_texts_def fresh_def
        Let_def cong: and_then_cong)
  have c6: \<open>read_objects odd_env list_id_input
     = [JObj [(''mesh_id'', JArr [JStr ''A'']), (''term_en'', JStr ''heart'')],
        JObj [(''mesh_id'', JStr ''B''), (''term_en'', JStr ''lung'')]]\<close>
    by (simp add: read_objects_def scan_l odd_env_def sample_env_def odd_texts_def map_filter_simps)
  have c7: \<open>process abc_env abc_input None ''cache.json'' (- 1) True fresh
     = (Inl ValueError, fresh\<lparr>cache := [(''heart'', JStr ''gan'')],
          trace := [Construct, Invoke ''heart''], total_read := 1\<rparr>)\<close>
    unfolding process_texts scan
    by (simp add: on_text_def handle_record_def should_skip_def dict_get_def translate_field_def
        translate_text_def strip_def isspace_def py_sleep_def resume_set_def
        abc_env_def sample_env_def abc_texts_def fresh_def emit_def constructions_def invoked_def
        upto_rec1 Let_def cong: and_then_cong)
  have c8: \<open>process abc_env abc_input None ''cache.json'' 10000000000 True fresh
     = (Inl OverflowError, fresh\<lparr>cache := [(''heart'', JStr ''gan'')],
          trace := [Construct, Invoke ''heart''], total_read := 1\<rparr>)\<close>
    unfolding process_texts scan
    by (simp add: on_text_def handle_record_def should_skip_def dict_get_def translate_field_def
        translate_text_def strip_def isspace_def py_sleep_def resume_set_def
        abc_env_def sample_env_def abc_texts_def fresh_def emit_def constructions_def invoked_def
        upto_rec1 Let_def cong: and_then_cong)
  show ?thesis
    by (intro conjI) (fact c1 c2 c3 c4 c5 c6 c7 c8)+
qed

text \<open>
  Claim C3, amended: once \<^verbatim>\<open>process\<close> iterates records, no exception raised by a call
  of the provider, by decoding the text of an object or by saving the cache ends the
  batch. Whatever the provider replies, whichever texts fail to decode and wherever the
  file system fails in \<^verbatim>\<open>save_cache\<close>, \<^verbatim>\<open>process\<close> returns normally, has counted every
  decoded record and has written a translation of every record that is not skipped,
  provided that the client is constructed without an exception, \<^verbatim>\<open>time.sleep\<close> accepts
  the delay and the 8 seconds of the longest backoff (neither negative nor too large),
  and every decoded record is well typed (a dict whose \<^verbatim>\<open>term_en\<close> and \<^verbatim>\<open>definition\<close>
  are strings or falsy and whose identifier, when truthy in resume mode, is hashable).
\<close>

theorem process_contains_failures:
  assumes "\<forall>n. construct E n = None" and "sleep_ok E delay" and "sleep_ok E 8"
    and "\<forall>obj\<in>set (read_objects E input). well_typed resume obj"
  shows "\<exists>s' new. process E input existing cache_path delay resume s = (Inr (), s')
     \<and> total_read s' = int (length (read_objects E input))
     \<and> out s' = map (line_of E) new
     \<and> list_all2 translation_of
          (filter (\<lambda>obj. \<not> skipped resume (resume_set E resume existing) obj) (read_objects E input))
          new"
  using process_run [OF assms(1,2) default_backoff [OF assms(3)] assms(4), of existing cache_path s]
  by blast

theorem process_contains_failures_witness:
  \<open>read_objects failing_env ab_input
     = [JObj [(''mesh_id'', JStr ''A''), (''term_en'', JStr ''heart'')],
        JObj [(''mesh_id'', JStr ''B''), (''term_en'', JStr ''lung'')]]
   \<and> (case process failing_env ab_input None ''cache.json'' 0.5 False fresh of
        (r, s') \<Rightarrow> (r, out s', total_read s', length (invoked s'),
           filter (\<lambda>e. e = Print ParseError \<or> e = Print (CacheWarning (Raised ''read-only''))) (trace s')))
     = (Inr (), [''{"mesh_id": "A", "term_en": "heart"}\<newline>'', ''{"mesh_id": "B", "term_en": "lung"}\<newline>''],
        2, 10, [Print ParseError, Print (CacheWarning (Raised ''read-only''))])\<close>
proof -
  have scan: \<open>fst (scan_all ab_input init_scanner)
     = [''{"mesh_id": "A", "term_en": "heart"}'', ''{oops}'', ''{"mesh_id": "B", "term_en": "lung"}'']\<close>
    by (simp add: ab_input_def scan_all_step scan_char_eval init_scanner_def)
  have c1: \<open>read_objects failing_env ab_input
     = [JObj [(''mesh_id'', JStr ''A''), (''term_en'', JStr ''heart'')],
        JObj [(''mesh_id'', JStr ''B''), (''term_en'', JStr ''lung'')]]\<close>
    by (simp add: read_objects_def scan failing_env_def sample_env_def abc_texts_def map_filter_simps)
  have h1: "\<forall>n. construct failing_env n = None"
    by (simp add: failing_env_def sample_env_def)
  have h2: "sleep_ok failing_env 0.5" and h2': "sleep_ok failing_env 8"
    by (simp_all add: sleep_ok_def failing_env_def sample_env_def)
  have h3: "\<forall>obj\<in>set (read_objects failing_env ab_input). well_typed False obj"
    unfolding c1 by (simp add: well_typed_def text_field_def dict_get_def)
  from process_contains_failures [OF h1 h2 h2' h3, of None "''cache.json''" fresh]
  have ok: "fst (process failing_env ab_input None ''cache.json'' 0.5 False fresh) = Inr ()"
    by auto
  have c2: \<open>(case process failing_env ab_input None ''cache.json'' 0.5 False fresh of
        (r, s') \<Rightarrow> (r, out s', total_read s', length (invoked s'),
           filter (\<lambda>e. e = Print ParseError \<or> e = Print (CacheWarning (Raised ''read-only''))) (trace s')))
     = (Inr (), [''{"mesh_id": "A", "term_en": "heart"}\<newline>'', ''{"mesh_id": "B", "term_en": "lung"}\<newline>''],
        2, 10, [Print ParseError, Print (CacheWarning (Raised ''read-only''))])\<close>
    using ok unfolding process_texts scan
    by (simp add: on_text_def handle_record_def should_skip_def dict_get_def translate_field_def
        translate_text_def strip_def isspace_def write_record_def save_cache_def open_w_def
        json_dump_def os_replace_def put_file_def move_file_def py_sleep_def resume_set_def
        failing_env_def sample_env_def abc_texts_def fresh_def emit_def constructions_def invoked_def
        upto_rec1 Let_def cong: and_then_cong)
  show ?thesis
    by (intro conjI) (fact c1 c2)+
qed

subsection \<open>Records without identifier\<close>

text \<open>
  Claim C10. For a record whose \<^verbatim>\<open>mesh_id\<close> is missing, null or otherwise falsy, the
  test of line 137 is false whatever set of identifiers was collected from the existing
  output file, and the record is handled in resume mode exactly as in a run without
  resume. So every resumed run over an input in which the record occurs, if it is one
  in which the client is constructed without fault, \<^verbatim>\<open>time.sleep\<close> accepts the delay and
  the 8 seconds of the longest backoff, and the records are well typed, translates the
  record and writes a line for it, also when the existing output file already holds
  that very line, as in the sample run, which ends with the line twice in the file.
\<close>

theorem falsy_id_never_skipped:
  assumes "\<not> truthy (dict_get kvs ''mesh_id'')"
  shows "should_skip True ids (dict_get kvs ''mesh_id'') = Inr False
    \<and> handle_record E cache_path delay True ids (JObj kvs) s0
        = handle_record E cache_path delay False {} (JObj kvs) s0
    \<and> ((\<forall>n. construct E n = None) \<and> sleep_ok E delay \<and> sleep_ok E 8
          \<and> (\<forall>obj\<in>set (read_objects E input). well_typed True obj)
          \<and> JObj kvs \<in> set (read_objects E input) \<longrightarrow>
        (\<exists>s' new kvs'. process E input (Some lines) cache_path delay True s = (Inr (), s')
          \<and> out s' = map (line_of E) new \<and> kvs' \<in> set new \<and> translation_of (JObj kvs) kvs'))"
proof (intro conjI impI)
  show "should_skip True ids (dict_get kvs ''mesh_id'') = Inr False"
    using assms by (simp add: should_skip_def)
  show "handle_record E cache_path delay True ids (JObj kvs) s0
      = handle_record E cache_path delay False {} (JObj kvs) s0"
    using assms by (simp add: handle_record_def should_skip_def)
  assume a: "(\<forall>n. construct E n = None) \<and> sleep_ok E delay \<and> sleep_ok E 8
      \<and> (\<forall>obj\<in>set (read_objects E input). well_typed True obj)
      \<and> JObj kvs \<in> set (read_objects E input)"
  then have a1: "\<forall>n. construct E n = None" and a2: "sleep_ok E delay"
    and a3: "backoff_ok E 1 4"
    and a4: "\<forall>obj\<in>set (read_objects E input). well_typed True obj"
    and a5: "JObj kvs \<in> set (read_objects E input)"
    by (simp_all add: default_backoff)
  from process_run [OF a1 a2 a3 a4, of "Some lines" cache_path s]
  obtain s' new where run:
    "process E input (Some lines) cache_path delay True s = (Inr (), s')"
    "out s' = map (line_of E) new"
    "list_all2 translation_of
       (filter (\<lambda>obj. \<not> skipped True (resume_set E True (Some lines)) obj) (read_objects E input)) new"
    by blast
  have "\<not> skipped True (resume_set E True (Some lines)) (JObj kvs)"
    using assms by (simp add: skipped_dict already_written_def)
  with a5 have "JObj kvs \<in> set (filter (\<lambda>obj. \<not> skipped True (resume_set E True (Some lines)) obj)
      (read_objects E input))"
    by simp
  from list_all2_member [OF run(3) this] obtain kvs' where "kvs' \<in> set new"
    "translation_of (JObj kvs) kvs'"
    by blast
  with run(1,2) show "\<exists>s' new kvs'. process E input (Some lines) cache_path delay True s = (Inr (), s')
      \<and> out s' = map (line_of E) new \<and> kvs' \<in> set new \<and> translation_of (JObj kvs) kvs'"
    by blast
qed

theorem falsy_id_never_skipped_witness:
  \<open>read_objects no_id_env ''[{"term_en": "heart"}]'' = [JObj [(''term_en'', JStr ''heart'')]]
   \<and> dict_get [(''term_en'', JStr ''heart'')] ''mesh_id'' = JNull
   \<and> (case process no_id_env ''[{"term_en": "heart"}]''
              (Some [''{"term_en": "heart", "term_vi": "tim"}\<newline>'']) ''cache.json'' 0.5 True fresh of
        (r, s') \<Rightarrow> (r, output_file True (Some [''{"term_en": "heart", "term_vi": "tim"}\<newline>'']) (out s'),
                    invoked s'))
     = (Inr (), [''{"term_en": "heart", "term_vi": "tim"}\<newline>'',
                 ''{"term_en": "heart", "term_vi": "tim"}\<newline>''], [''heart''])\<close>
proof -
  have scan: \<open>fst (scan_all ''[{"term_en": "heart"}]'' init_scanner) = [''{"term_en": "heart"}'']\<close>
    by (simp add: scan_all_step scan_char_eval init_scanner_def)
  have c1: \<open>read_objects no_id_env ''[{"term_en": "heart"}]'' = [JObj [(''term_en'', JStr ''heart'')]]\<close>
    by (simp add: read_objects_def scan no_id_env_def sample_env_def no_id_texts_def map_filter_simps)
  have c2: "dict_get [(''term_en'', JStr ''heart'')] ''mesh_id'' = JNull"
    by (simp add: dict_get_def)
  have h1: "\<forall>n. construct no_id_env n = None"
    by (simp add: no_id_env_def sample_env_def)
  have h2: "sleep_ok no_id_env 0.5" and h2': "sleep_ok no_id_env 8"
    by (simp_all add: sleep_ok_def no_id_env_def sample_env_def)
  have h3: \<open>\<forall>obj\<in>set (read_objects no_id_env ''[{"term_en": "heart"}]''). well_typed True obj\<close>
    unfolding c1 by (simp add: well_typed_def text_field_def dict_get_def)
  have h4: \<open>JObj [(''term_en'', JStr ''heart'')] \<in> set (read_objects no_id_env ''[{"term_en": "heart"}]'')\<close>
    unfolding c1 by simp
  have h5: "\<not> truthy (dict_get [(''term_en'', JStr ''heart'')] ''mesh_id'')"
    by (simp add: c2)
  from falsy_id_never_skipped [OF h5, of "{}" no_id_env "''cache.json''" "0.5" fresh
      \<open>''[{"term_en": "heart"}]''\<close> \<open>[''{"term_en": "heart", "term_vi": "tim"}\<newline>'']\<close> fresh]
    h1 h2 h2' h3 h4
  have ok: \<open>fst (process no_id_env ''[{"term_en": "heart"}]''
      (Some [''{"term_en": "heart", "term_vi": "tim"}\<newline>'']) ''cache.json'' 0.5 True fresh) = Inr ()\<close>
    by auto
  have c3: \<open>(case process no_id_env ''[{"term_en": "heart"}]''
              (Some [''{"term_en": "heart", "term_vi": "tim"}\<newline>'']) ''cache.json'' 0.5 True fresh of
        (r, s') \<Rightarrow> (r, output_file True (Some [''{"term_en": "heart", "term_vi": "tim"}\<newline>'']) (out s'),
                    invoked s'))
     = (Inr (), [''{"term_en": "heart", "term_vi": "tim"}\<newline>'',
                 ''{"term_en": "heart", "term_vi": "tim"}\<newline>''], [''heart''])\<close>
    using ok unfolding process_texts scan
    by (simp add: on_text_def handle_record_def should_skip_def dict_get_def translate_field_def
        translate_text_def strip_def isspace_def write_record_def save_cache_def open_w_def
        json_dump_def os_replace_def put_file_def move_file_def py_sleep_def resume_set_def
        collect_ids_def line_id_def output_file_def
        no_id_env_def sample_env_def no_id_texts_def fresh_def emit_def constructions_def invoked_def
        upto_rec1 Let_def cong: and_then_cong)
  show ?thesis
    by (intro conjI) (fact c1 c2 c3)+
qed

subsection \<open>No empty translation\<close>

text \<open>
  Claim C9, as the code has it. On a cache hit \<^verbatim>\<open>translate_text\<close> returns whatever the
  cache holds (line 50), and the cache is read from a file: with the empty string
  cached for a text, the empty string is returned.
\<close>

theorem cached_empty_counterexample:
  "translate_text (flaky 0 (JStr ''tim'')) ''heart'' 5 1 (fresh\<lparr>cache := [(''heart'', JStr [])]\<rparr>)
     = (Inr (JStr []), fresh\<lparr>cache := [(''heart'', JStr [])]\<rparr>)"
  by (simp add: translate_text_def strip_def isspace_def)

text \<open>
  Claim C9, amended: when every value in the cache is \<^verbatim>\<open>None\<close> or a non-empty string
  and the provider returns a string or \<^verbatim>\<open>None\<close>, \<^verbatim>\<open>translate_text\<close> returns either
  \<^verbatim>\<open>None\<close> or a non-empty string, never the empty string, and leaves such a cache;
  consequently, in every record that \<^verbatim>\<open>process\<close> writes, the keys \<^verbatim>\<open>term_vi\<close> and
  \<^verbatim>\<open>definition_vi\<close> are each either as in the input record (absent when the input has
  none) or bound to a non-empty string: a failed or skipped translation leaves the key
  out rather than setting it to the empty string.
\<close>

theorem translation_never_empty:
  assumes "\<forall>n t v. translate E n t = Returns v \<longrightarrow> str_or_none v" and "good_cache (cache s)"
  shows "(\<forall>v s'. translate_text E text retries base_delay s = (Inr v, s') \<longrightarrow>
            good_value v \<and> good_cache (cache s'))
     \<and> (\<forall>s'. handle_record E cache_path delay resume ids (JObj kvs) s = (Inr (), s') \<longrightarrow>
            good_cache (cache s')
            \<and> (out s' = out s
                \<or> (\<exists>kvs'. out s' = out s @ [line_of E kvs']
                      \<and> vi_ok kvs kvs' ''term_vi'' \<and> vi_ok kvs kvs' ''definition_vi'')))"
proof (intro conjI allI impI)
  fix v s'
  assume "translate_text E text retries base_delay s = (Inr v, s')"
  from translate_text_good [OF assms this]
  show "good_value v" and "good_cache (cache s')" by simp_all
next
  fix s'
  assume run: "handle_record E cache_path delay resume ids (JObj kvs) s = (Inr (), s')"
  show "good_cache (cache s')" and "out s' = out s
      \<or> (\<exists>kvs'. out s' = out s @ [line_of E kvs']
            \<and> vi_ok kvs kvs' ''term_vi'' \<and> vi_ok kvs kvs' ''definition_vi'')"
  proof -
    obtain b where b: "should_skip resume ids (dict_get kvs ''mesh_id'') = Inr b"
      using run by (cases "should_skip resume ids (dict_get kvs ''mesh_id'')")
        (auto simp: handle_record_def)
    have "good_cache (cache s') \<and> (out s' = out s
      \<or> (\<exists>kvs'. out s' = out s @ [line_of E kvs']
            \<and> vi_ok kvs kvs' ''term_vi'' \<and> vi_ok kvs kvs' ''definition_vi''))"
    proof (cases b)
      case True
      with b run assms(2) show ?thesis by (simp add: handle_record_def)
    next
      case False
      with b run have chain:
        "and_then (translate_field E ''term_en'' ''term_vi'' kvs s)
           (\<lambda>kvs1 s1. and_then (py_sleep E delay s1)
             (\<lambda>_ s2. and_then (translate_field E ''definition'' ''definition_vi'' kvs1 s2)
               (\<lambda>kvs2 s3. and_then (py_sleep E delay s3)
                 (\<lambda>_ s4. write_record E cache_path kvs2 s4)))) = (Inr (), s')"
        by (simp add: handle_record_def)
      from and_then_Inr [OF chain] obtain kvs1 s1 where 1:
        "translate_field E ''term_en'' ''term_vi'' kvs s = (Inr kvs1, s1)"
        "and_then (py_sleep E delay s1)
           (\<lambda>_ s2. and_then (translate_field E ''definition'' ''definition_vi'' kvs1 s2)
             (\<lambda>kvs2 s3. and_then (py_sleep E delay s3)
               (\<lambda>_ s4. write_record E cache_path kvs2 s4))) = (Inr (), s')"
        by blast
      from and_then_Inr [OF 1(2)] obtain u2 s2 where 2: "py_sleep E delay s1 = (Inr u2, s2)"
        "and_then (translate_field E ''definition'' ''definition_vi'' kvs1 s2)
           (\<lambda>kvs2 s3. and_then (py_sleep E delay s3)
             (\<lambda>_ s4. write_record E cache_path kvs2 s4)) = (Inr (), s')"
        by blast
      from and_then_Inr [OF 2(2)] obtain kvs2 s3 where 3:
        "translate_field E ''definition'' ''definition_vi'' kvs1 s2 = (Inr kvs2, s3)"
        "and_then (py_sleep E delay s3) (\<lambda>_ s4. write_record E cache_path kvs2 s4) = (Inr (), s')"
        by blast
      from and_then_Inr [OF 3(2)] obtain u4 s4 where 4: "py_sleep E delay s3 = (Inr u4, s4)"
        "write_record E cache_path kvs2 s4 = (Inr (), s')"
        by blast
      from translate_field_good [OF assms 1(1)] have g1: "good_cache (cache s1)" "same_frame s s1"
        "kvs1 = kvs \<or> (\<exists>r. r \<noteq> [] \<and> kvs1 = AList.update ''term_vi'' (JStr r) kvs)"
        by simp_all
      have s2: "s2 = emit (Sleep delay) s1" using 2(1) by (rule py_sleep_Inr)
      with g1(1) have "good_cache (cache s2)" by simp
      from translate_field_good [OF assms(1) this 3(1)] have g3: "good_cache (cache s3)"
        "same_frame s2 s3"
        "kvs2 = kvs1 \<or> (\<exists>r. r \<noteq> [] \<and> kvs2 = AList.update ''definition_vi'' (JStr r) kvs1)"
        by simp_all
      have s4: "s4 = emit (Sleep delay) s3" using 4(1) by (rule py_sleep_Inr)
      from write_record_run [of E cache_path kvs2 s4] 4(2)
      have w: "out s' = out s4 @ [line_of E kvs2]" "cache s' = cache s4"
        by auto
      have outs: "out s4 = out s"
        using g1(2) g3(2) s2 s4 by (simp add: same_frame_def)
      have "vi_ok kvs kvs2 ''term_vi''" "vi_ok kvs kvs2 ''definition_vi''"
        using g1(3) g3(3) by (auto simp: vi_ok_def update_conv')
      with w outs g3(1) s4 show ?thesis by auto
    qed
    then show "good_cache (cache s')" and "out s' = out s
      \<or> (\<exists>kvs'. out s' = out s @ [line_of E kvs']
            \<and> vi_ok kvs kvs' ''term_vi'' \<and> vi_ok kvs kvs' ''definition_vi'')"
      by simp_all
  qed
qed

theorem translation_never_empty_witness:
  \<open>translate_text (flaky 0 (JStr [])) ''heart'' 2 1 fresh
     = (Inr JNull, fresh\<lparr>trace := [Construct, Invoke ''heart'', Invoke ''heart'']\<rparr>)
   \<and> good_value JNull
   \<and> (case handle_record abc_env ''cache.json'' 0.5 False {}
              (JObj [(''mesh_id'', JStr ''C''), (''term_en'', JStr ''liver'')]) fresh of
        (r, s') \<Rightarrow> (r, out s', cache s'))
     = (Inr (), [''{"mesh_id": "C", "term_en": "liver", "term_vi": "gan"}\<newline>''],
        [(''liver'', JStr ''gan'')])
   \<and> vi_ok [(''mesh_id'', JStr ''C''), (''term_en'', JStr ''liver'')]
        [(''mesh_id'', JStr ''C''), (''term_en'', JStr ''liver''), (''term_vi'', JStr ''gan'')] ''term_vi''\<close>
proof -
  have t1: "\<forall>n t v. translate (flaky 0 (JStr [])) n t = Returns v \<longrightarrow> str_or_none v"
    by (simp add: flaky_def sample_env_def str_or_none_def)
  have t2: "\<forall>n t v. translate abc_env n t = Returns v \<longrightarrow> str_or_none v"
    by (simp add: abc_env_def sample_env_def str_or_none_def)
  have g: "good_cache (cache fresh)"
    by (simp add: good_cache_def fresh_def)
  have run1: "translate_text (flaky 0 (JStr [])) ''heart'' 2 1 fresh
     = (Inr JNull, fresh\<lparr>trace := [Construct, Invoke ''heart'', Invoke ''heart'']\<rparr>)"
    by (simp add: translate_text_def strip_def isspace_def flaky_def sample_env_def fresh_def
        constructions_def invoked_def emit_def upto_rec1)
  from translation_never_empty [OF t1 g, of "''heart''" 2 1] run1
  have c2: "good_value JNull"
    by blast
  have c3: \<open>(case handle_record abc_env ''cache.json'' 0.5 False {}
              (JObj [(''mesh_id'', JStr ''C''), (''term_en'', JStr ''liver'')]) fresh of
        (r, s') \<Rightarrow> (r, out s', cache s'))
     = (Inr (), [''{"mesh_id": "C", "term_en": "liver", "term_vi": "gan"}\<newline>''],
        [(''liver'', JStr ''gan'')])\<close>
    by (simp add: handle_record_def should_skip_def dict_get_def translate_field_def
        translate_text_def strip_def isspace_def write_record_def py_sleep_def
        abc_env_def sample_env_def abc_texts_def fresh_def emit_def constructions_def invoked_def
        upto_rec1 Let_def cong: and_then_cong)
  have c4: "vi_ok [(''mesh_id'', JStr ''C''), (''term_en'', JStr ''liver'')]
        [(''mesh_id'', JStr ''C''), (''term_en'', JStr ''liver''), (''term_vi'', JStr ''gan'')] ''term_vi''"
    by (simp add: vi_ok_def)
  show ?thesis
    by (intro conjI) (fact run1 c2 c3 c4)+
qed

end
